theory Spec2Isabelle
  imports Complex_Main "HOL-Library.Multiset"
begin

section \<open>Memory records and the chronological sorter\<close>

text \<open>
  \<^verbatim>\<open>client/src/lib/types.ts\<close>: a \<^verbatim>\<open>Memory\<close> has a creation instant
  (\<^verbatim>\<open>createdAt\<close>, a number of milliseconds) and an optional user-supplied
  \<^verbatim>\<open>memoryDate\<close> string. The field \<^verbatim>\<open>id\<close> is called \<open>memId\<close> here, since
  \<open>id\<close> is the identity function of HOL.
\<close>

record memory =
  memId :: string
  createdAt :: int
  memoryDate :: "string option"
  locationKey :: string
  lat :: real
  lng :: real
  caption :: string
  imageDataUrl :: string

text \<open>
  \<^verbatim>\<open>new Date(s).getTime()\<close> is a built-in of the host. It is a parameter
  \<open>dateMs\<close> of the model: \<open>Some ms\<close> for a date the host resolves, \<open>None\<close> for
  \<^verbatim>\<open>NaN\<close> (an invalid date).

  \<^verbatim>\<open>a.memoryDate ? new Date(a.memoryDate).getTime() : a.createdAt\<close>: a missing
  and an empty \<^verbatim>\<open>memoryDate\<close> are both falsy.
\<close>

definition effectiveTime :: "(string \<Rightarrow> int option) \<Rightarrow> memory \<Rightarrow> int option" where
  "effectiveTime dateMs m =
     (case memoryDate m of
        None \<Rightarrow> Some (createdAt m)
      | Some s \<Rightarrow> (if s = [] then Some (createdAt m) else dateMs s))"

text \<open>The comparator \<^verbatim>\<open>dateA - dateB\<close>; \<^verbatim>\<open>NaN\<close> on either side gives \<^verbatim>\<open>NaN\<close>.\<close>

definition compareFn :: "(string \<Rightarrow> int option) \<Rightarrow> memory \<Rightarrow> memory \<Rightarrow> int option" where
  "compareFn dateMs a b =
     (case effectiveTime dateMs a of
        None \<Rightarrow> None
      | Some dateA \<Rightarrow>
          (case effectiveTime dateMs b of
             None \<Rightarrow> None
           | Some dateB \<Rightarrow> Some (dateA - dateB)))"

text \<open>
  \<^verbatim>\<open>Array.prototype.sort\<close> with a comparator, as the language defines it. The
  value the sort works with is the comparator's, with \<^verbatim>\<open>NaN\<close> read as \<open>0\<close>. A
  comparator is consistent on the values of an array when it never returns
  \<^verbatim>\<open>NaN\<close> on them, every value equals itself, equality is symmetric, and
  equality, less and greater are transitive.
\<close>

definition sortCompare :: "('a \<Rightarrow> 'a \<Rightarrow> int option) \<Rightarrow> 'a \<Rightarrow> 'a \<Rightarrow> int" where
  "sortCompare cmp x y = (case cmp x y of None \<Rightarrow> 0 | Some v \<Rightarrow> v)"

definition consistentOn :: "('a \<Rightarrow> 'a \<Rightarrow> int option) \<Rightarrow> 'a list \<Rightarrow> bool" where
  "consistentOn cmp xs =
     (\<forall>a\<in>set xs.
        sortCompare cmp a a = 0
        \<and> (\<forall>b\<in>set xs.
              cmp a b \<noteq> None
              \<and> (sortCompare cmp a b = 0 \<longrightarrow> sortCompare cmp b a = 0)
              \<and> (\<forall>c\<in>set xs.
                    (sortCompare cmp a b = 0 \<and> sortCompare cmp b c = 0 \<longrightarrow> sortCompare cmp a c = 0)
                    \<and> (sortCompare cmp a b < 0 \<and> sortCompare cmp b c < 0 \<longrightarrow> sortCompare cmp a c < 0)
                    \<and> (0 < sortCompare cmp a b \<and> 0 < sortCompare cmp b c \<longrightarrow> 0 < sortCompare cmp a c))))"

text \<open>
  On a consistent comparator the result is the stable sort, which is one list
  whatever the algorithm; it is computed here by insertion. Otherwise the language
  leaves the order to the engine: the result is what the engine's own procedure
  \<open>engine\<close>, a parameter of the model, returns.
\<close>

fun js_insert :: "('a \<Rightarrow> 'a \<Rightarrow> int option) \<Rightarrow> 'a \<Rightarrow> 'a list \<Rightarrow> 'a list" where
  "js_insert cmp x [] = [x]"
| "js_insert cmp x (y # ys) =
     (if sortCompare cmp x y \<le> 0 then x # y # ys else y # js_insert cmp x ys)"

definition js_sort ::
  "(('a \<Rightarrow> 'a \<Rightarrow> int option) \<Rightarrow> 'a list \<Rightarrow> 'a list) \<Rightarrow> ('a \<Rightarrow> 'a \<Rightarrow> int option) \<Rightarrow> 'a list \<Rightarrow> 'a list" where
  "js_sort engine cmp xs = (if consistentOn cmp xs then foldr (js_insert cmp) xs [] else engine cmp xs)"

text \<open>An engine that leaves an array it cannot order as it is.\<close>

definition asGiven :: "('a \<Rightarrow> 'a \<Rightarrow> int option) \<Rightarrow> 'a list \<Rightarrow> 'a list" where
  "asGiven cmp xs = xs"

text \<open>\<^verbatim>\<open>sortChronologically\<close>, as a function of the array's contents.\<close>

definition sortChronologically ::
  "((memory \<Rightarrow> memory \<Rightarrow> int option) \<Rightarrow> memory list \<Rightarrow> memory list) \<Rightarrow> (string \<Rightarrow> int option)
     \<Rightarrow> memory list \<Rightarrow> memory list" where
  "sortChronologically engine dateMs memories = js_sort engine (compareFn dateMs) memories"

subsection \<open>The effective timestamp in the words of the specification\<close>

text \<open>
  The user-supplied date of a record, when it is present: a \<^verbatim>\<open>memoryDate\<close> that
  is there and not empty.
\<close>

definition userDate :: "memory \<Rightarrow> string option" where
  "userDate m = (case memoryDate m of None \<Rightarrow> None | Some s \<Rightarrow> if s \<noteq> [] then Some s else None)"

text \<open>
  The effective timestamp: the instant of the user-supplied date when present,
  else the creation instant. \<open>None\<close> when the user-supplied date does not resolve.
\<close>

definition timestampOf :: "(string \<Rightarrow> int option) \<Rightarrow> memory \<Rightarrow> int option" where
  "timestampOf dateMs m = (case userDate m of Some s \<Rightarrow> dateMs s | None \<Rightarrow> Some (createdAt m))"

text \<open>
  \<open>a\<close> is not later than \<open>b\<close>: both effective timestamps resolve and are in order.
\<close>

definition notLater :: "(string \<Rightarrow> int option) \<Rightarrow> memory \<Rightarrow> memory \<Rightarrow> bool" where
  "notLater dateMs a b =
     (case timestampOf dateMs a of
        None \<Rightarrow> False
      | Some ta \<Rightarrow> (case timestampOf dateMs b of None \<Rightarrow> False | Some tb \<Rightarrow> ta \<le> tb))"

subsection \<open>Calendar dates\<close>

text \<open>
  The \<^verbatim>\<open>memoryDate\<close> strings the application stores are \<^verbatim>\<open>YYYY-MM-DD\<close> dates of
  the calendar, which every host reads as midnight UTC of that day.
  \<open>calendarDateMs\<close> gives that instant (days from the civil date, times the
  milliseconds of a day) for such a string and \<open>None\<close> for every other string. It
  is not the host's parser, which reads more strings than these: a host parser
  \<open>dateMs\<close> reads calendar dates when it agrees with \<open>calendarDateMs\<close> wherever
  that gives an instant.
\<close>

definition digitVal :: "char \<Rightarrow> int option" where
  "digitVal c = (let k = (of_char c :: nat) in if 48 \<le> k \<and> k \<le> 57 then Some (int k - 48) else None)"

fun digitsVal :: "string \<Rightarrow> int option" where
  "digitsVal [] = Some 0"
| "digitsVal (c # cs) =
     (case digitVal c of
        None \<Rightarrow> None
      | Some d \<Rightarrow> (case digitsVal cs of None \<Rightarrow> None | Some r \<Rightarrow> Some (d * 10 ^ length cs + r)))"

definition isLeap :: "int \<Rightarrow> bool" where
  "isLeap y = (y mod 4 = 0 \<and> (y mod 100 \<noteq> 0 \<or> y mod 400 = 0))"

definition daysInMonth :: "int \<Rightarrow> int \<Rightarrow> int" where
  "daysInMonth y m =
     (if m = 2 then (if isLeap y then 29 else 28)
      else if m = 4 \<or> m = 6 \<or> m = 9 \<or> m = 11 then 30 else 31)"

definition daysFromCivil :: "int \<Rightarrow> int \<Rightarrow> int \<Rightarrow> int" where
  "daysFromCivil y m d =
     (let y' = (if m \<le> 2 then y - 1 else y);
          era = y' div 400;
          yoe = y' - era * 400;
          doy = (153 * (if m > 2 then m - 3 else m + 9) + 2) div 5 + d - 1;
          doe = yoe * 365 + yoe div 4 - yoe div 100 + doy
      in era * 146097 + doe - 719468)"

definition calendarDateMs :: "string \<Rightarrow> int option" where
  "calendarDateMs s =
     (if length s = 10 \<and> s ! 4 = CHR ''-'' \<and> s ! 7 = CHR ''-'' then
        (case (digitsVal (take 4 s), digitsVal (take 2 (drop 5 s)), digitsVal (drop 8 s)) of
           (Some y, Some m, Some d) \<Rightarrow>
             (if 1 \<le> m \<and> m \<le> 12 \<and> 1 \<le> d \<and> d \<le> daysInMonth y m
              then Some (daysFromCivil y m d * 86400000) else None)
         | _ \<Rightarrow> None)
      else None)"

definition readsCalendarDates :: "(string \<Rightarrow> int option) \<Rightarrow> bool" where
  "readsCalendarDates dateMs = (\<forall>s t. calendarDateMs s = Some t \<longrightarrow> dateMs s = Some t)"

definition dated :: "string \<Rightarrow> string \<Rightarrow> memory" where
  "dated i d = \<lparr>memId = i, createdAt = 0, memoryDate = Some d, locationKey = [],
                lat = 0, lng = 0, caption = [], imageDataUrl = []\<rparr>"

definition undated :: "string \<Rightarrow> int \<Rightarrow> memory" where
  "undated i c = \<lparr>memId = i, createdAt = c, memoryDate = None, locationKey = [],
                  lat = 0, lng = 0, caption = [], imageDataUrl = []\<rparr>"


subsection \<open>Arrays in the store\<close>

text \<open>
  \<^verbatim>\<open>[...memories].sort(cmp)\<close> works on array objects: the spread allocates a new
  array holding the same records, \<^verbatim>\<open>sort\<close> reorders that array in place and
  returns it. The store maps an address (an index) to the contents of the array
  there; a reference outside the store is \<open>None\<close>.
\<close>

type_synonym store = "memory list list"

definition spread :: "store \<Rightarrow> nat \<Rightarrow> (store \<times> nat) option" where
  "spread h a = (if a < length h then Some (h @ [h ! a], length h) else None)"

definition array_sort ::
  "((memory \<Rightarrow> memory \<Rightarrow> int option) \<Rightarrow> memory list \<Rightarrow> memory list)
     \<Rightarrow> (memory \<Rightarrow> memory \<Rightarrow> int option) \<Rightarrow> store \<Rightarrow> nat \<Rightarrow> (store \<times> nat) option" where
  "array_sort engine cmp h a =
     (if a < length h then Some (h[a := js_sort engine cmp (h ! a)], a) else None)"

definition sortChronologically_st ::
  "((memory \<Rightarrow> memory \<Rightarrow> int option) \<Rightarrow> memory list \<Rightarrow> memory list)
     \<Rightarrow> (string \<Rightarrow> int option) \<Rightarrow> store \<Rightarrow> nat \<Rightarrow> (store \<times> nat) option" where
  "sortChronologically_st engine dateMs h memories =
     (case spread h memories of
        None \<Rightarrow> None
      | Some (h1, copy) \<Rightarrow> array_sort engine (compareFn dateMs) h1 copy)"

definition scenario :: "memory list" where
  "scenario = [dated ''r1'' ''2024-01-01'', dated ''r2'' ''2024-06-15'', dated ''r3'' ''2023-12-25'']"

text \<open>
  Records for the examples: three without a user-supplied date, created out of
  order; two with a date and one whose date no host resolves.
\<close>

definition createdOnly :: "memory list" where
  "createdOnly = [undated ''u1'' 5, undated ''u2'' 3, undated ''u3'' 4]"

definition june :: memory where
  "june = dated ''a'' ''2024-06-15''"

definition unreadable :: memory where
  "unreadable = dated ''g'' ''garbage''"

text \<open>The effective timestamp of the code as a number, \<open>0\<close> where it does not resolve.\<close>

definition stampOf :: "(string \<Rightarrow> int option) \<Rightarrow> memory \<Rightarrow> int" where
  "stampOf dateMs m = (case effectiveTime dateMs m of None \<Rightarrow> 0 | Some t \<Rightarrow> t)"

section \<open>The ambient music module\<close>

text \<open>
  \<^verbatim>\<open>client/src/lib/ambientMusic.ts\<close> keeps four module variables: \<^verbatim>\<open>audioCtx\<close>,
  \<^verbatim>\<open>masterGain\<close>, \<^verbatim>\<open>isPlaying\<close> and \<^verbatim>\<open>schedulerTimer\<close>. The record holds them
  together with the resources of the host that the module creates and releases:
  the audio contexts constructed so far (numbered from 1) and those closed, the
  timer ids handed out (numbered from 1, so every id is truthy), the live
  intervals, the pending timeouts, the gain ramps and the chord batches scheduled.
  A gain node is named by the context that made it. Times are in seconds, the
  delay of a timeout in milliseconds.
\<close>

record interval =
  intervalId :: nat
  mergeNode :: nat   \<comment> \<open>the context of the \<^verbatim>\<open>mergeNode\<close> the callback closed over\<close>
  nextStart :: real  \<comment> \<open>the \<^verbatim>\<open>nextStart\<close> variable the callback closed over\<close>

record timeout =
  timeoutId :: nat
  delay :: nat
  ctx :: nat         \<comment> \<open>\<^verbatim>\<open>const ctx = audioCtx\<close>, captured when the stop began\<close>

record ramp =
  gainOf :: nat
  target :: real
  rampStart :: real
  rampEnd :: real

record batch =
  batchCtx :: nat    \<comment> \<open>the context the tones are created in\<close>
  batchDest :: nat   \<comment> \<open>the context of the node they are connected to\<close>
  batchStart :: real

record audio =
  audioCtx :: "nat option"
  masterGain :: "nat option"
  isPlaying :: bool
  schedulerTimer :: "nat option"
  ctxCreated :: nat
  ctxClosed :: "nat list"
  timerSeq :: nat
  intervals :: "interval list"
  timeouts :: "timeout list"
  ramps :: "ramp list"
  batches :: "batch list"

definition initialAudio :: audio where
  "initialAudio =
     \<lparr>audioCtx = None, masterGain = None, isPlaying = False, schedulerTimer = None,
      ctxCreated = 0, ctxClosed = [], timerSeq = 0, intervals = [], timeouts = [],
      ramps = [], batches = []\<rparr>"

datatype audio_error = AudioRefused

definition CHORD_DURATION :: real where
  "CHORD_DURATION = 3"

definition CHORDS_length :: nat where
  "CHORDS_length = 8"

definition loopDuration :: real where
  "loopDuration = real CHORDS_length * CHORD_DURATION"

text \<open>
  \<^verbatim>\<open>scheduleChords(ctx, destination, startTime)\<close> queues the eight chords of one loop
  from \<open>startTime\<close>; the model records the batch, not its single tones.
\<close>

definition scheduleChords :: "nat \<Rightarrow> nat \<Rightarrow> real \<Rightarrow> audio \<Rightarrow> audio" where
  "scheduleChords c destination startTime a =
     a\<lparr>batches := batches a @ [\<lparr>batchCtx = c, batchDest = destination, batchStart = startTime\<rparr>]\<rparr>"

text \<open>
  \<^verbatim>\<open>startMusic\<close>. \<open>ctorOk\<close> says whether the host lets \<^verbatim>\<open>new AudioContext()\<close>
  succeed; when it throws, nothing has been assigned yet and the function has no
  handler, so the exception leaves it. \<open>now\<close> is \<^verbatim>\<open>audioCtx.currentTime\<close>. The
  result is the exception, if any, and the state of the module afterwards.
\<close>

definition startMusic :: "bool \<Rightarrow> real \<Rightarrow> audio \<Rightarrow> audio_error option \<times> audio" where
  "startMusic ctorOk now a =
     (if isPlaying a then (None, a)
      else if \<not> ctorOk then (Some AudioRefused, a)
      else
        let c = ctxCreated a + 1;
            a1 = a\<lparr>audioCtx := Some c, masterGain := Some c, ctxCreated := c,
                   ramps := ramps a @ [\<lparr>gainOf = c, target = 1, rampStart = now, rampEnd = now + 2\<rparr>]\<rparr>;
            a2 = scheduleChords c c (now + 0.5) a1;
            t = timerSeq a2 + 1
        in (None, a2\<lparr>timerSeq := t,
                     intervals := intervals a2 @ [\<lparr>intervalId = t, mergeNode = c, nextStart = now + 0.5\<rparr>],
                     schedulerTimer := Some t,
                     isPlaying := True\<rparr>))"

text \<open>The period of the scheduling interval, \<^verbatim>\<open>(loopDuration - 2) * 1000\<close> ms.\<close>

definition schedulerPeriod :: real where
  "schedulerPeriod = (loopDuration - 2) * 1000"

text \<open>
  The callback of the scheduling interval \<open>i\<close>: it reads the module variables
  \<^verbatim>\<open>audioCtx\<close> and \<^verbatim>\<open>isPlaying\<close> as they are when it runs, and its own
  \<^verbatim>\<open>mergeNode\<close> and \<^verbatim>\<open>nextStart\<close>.
\<close>

definition schedulerTick :: "nat \<Rightarrow> audio \<Rightarrow> audio" where
  "schedulerTick i a =
     (case filter (\<lambda>v. intervalId v = i) (intervals a) of
        [] \<Rightarrow> a
      | v # _ \<Rightarrow>
          (case audioCtx a of
             None \<Rightarrow> a
           | Some c \<Rightarrow>
               if \<not> isPlaying a then a
               else
                 let n = nextStart v + loopDuration;
                     a1 = a\<lparr>intervals := map (\<lambda>u. if intervalId u = i then u\<lparr>nextStart := n\<rparr> else u) (intervals a)\<rparr>
                 in scheduleChords c (mergeNode v) n a1))"

text \<open>
  \<^verbatim>\<open>stopMusic\<close>: the fade-out ramp of 1.5 s, the clean-up timeout of 2000 ms that
  captures the context, and the reset of the module variables.
\<close>

definition stopMusic :: "real \<Rightarrow> audio \<Rightarrow> audio" where
  "stopMusic now a =
     (if \<not> isPlaying a then a
      else
        (case audioCtx a of
           None \<Rightarrow> a
         | Some c \<Rightarrow>
             (case masterGain a of
                None \<Rightarrow> a
              | Some g \<Rightarrow>
                  let t = timerSeq a + 1
                  in a\<lparr>ramps := ramps a @ [\<lparr>gainOf = g, target = 0, rampStart = now, rampEnd = now + 1.5\<rparr>],
                       timerSeq := t,
                       timeouts := timeouts a @ [\<lparr>timeoutId = t, delay = 2000, ctx = c\<rparr>],
                       audioCtx := None,
                       masterGain := None,
                       isPlaying := False\<rparr>)))"

text \<open>
  The clean-up callback of the timeout \<open>t\<close>, when it fires: it clears the interval
  that the module variable \<^verbatim>\<open>schedulerTimer\<close> names at that moment, and closes the
  context it captured.
\<close>

definition cleanupAfterFade :: "nat \<Rightarrow> audio \<Rightarrow> audio" where
  "cleanupAfterFade t a =
     (case filter (\<lambda>v. timeoutId v = t) (timeouts a) of
        [] \<Rightarrow> a
      | v # _ \<Rightarrow>
          let a1 = a\<lparr>timeouts := filter (\<lambda>u. timeoutId u \<noteq> t) (timeouts a)\<rparr>;
              a2 = (case schedulerTimer a1 of
                      None \<Rightarrow> a1
                    | Some i \<Rightarrow> a1\<lparr>intervals := filter (\<lambda>u. intervalId u \<noteq> i) (intervals a1),
                                   schedulerTimer := None\<rparr>)
          in a2\<lparr>ctxClosed := ctxClosed a2 @ [ctx v]\<rparr>)"

definition isMusicPlaying :: "audio \<Rightarrow> bool" where
  "isMusicPlaying a = isPlaying a"

text \<open>What can happen to the module: calls of its functions and its timers firing.\<close>

datatype audio_event =
  StartMusic bool real
| StopMusic real
| TimeoutFires nat
| IntervalFires nat

fun audio_step :: "audio \<Rightarrow> audio_event \<Rightarrow> audio" where
  "audio_step a (StartMusic ctorOk now) = snd (startMusic ctorOk now a)"
| "audio_step a (StopMusic now) = stopMusic now a"
| "audio_step a (TimeoutFires t) = cleanupAfterFade t a"
| "audio_step a (IntervalFires i) = schedulerTick i a"

definition audio_run :: "audio_event list \<Rightarrow> audio" where
  "audio_run evs = foldl audio_step initialAudio evs"

text \<open>
  A session exists from the construction of its context until the clean-up after
  its fade-out closes the context. It is fading out while that clean-up is
  pending.
\<close>

definition sessionExists :: "audio \<Rightarrow> nat \<Rightarrow> bool" where
  "sessionExists a c = (1 \<le> c \<and> c \<le> ctxCreated a \<and> c \<notin> set (ctxClosed a))"

definition fadingOut :: "audio \<Rightarrow> nat \<Rightarrow> bool" where
  "fadingOut a c = (c \<in> set (map ctx (timeouts a)))"

text \<open>The invariant of the module along every trace.\<close>

definition audio_inv :: "audio \<Rightarrow> bool" where
  "audio_inv a =
     ((\<forall>c\<in>set (ctxClosed a). 1 \<le> c \<and> c \<le> ctxCreated a)
      \<and> (\<forall>v\<in>set (timeouts a). 1 \<le> ctx v \<and> ctx v \<le> ctxCreated a \<and> timeoutId v \<le> timerSeq a)
      \<and> distinct (map timeoutId (timeouts a))
      \<and> (isPlaying a \<longrightarrow>
            audioCtx a = Some (ctxCreated a) \<and> masterGain a = Some (ctxCreated a)
            \<and> 1 \<le> ctxCreated a
            \<and> ctxCreated a \<notin> set (ctxClosed a)
            \<and> ctxCreated a \<notin> set (map ctx (timeouts a)))
      \<and> (\<not> isPlaying a \<longrightarrow> audioCtx a = None \<and> masterGain a = None)
      \<and> (\<forall>c. 1 \<le> c \<and> c \<le> ctxCreated a \<and> (isPlaying a \<longrightarrow> c \<noteq> ctxCreated a)
             \<longrightarrow> c \<in> set (ctxClosed a) \<or> c \<in> set (map ctx (timeouts a))))"

text \<open>A context with a clean-up pending has one such clean-up and is not closed yet.\<close>

definition fading_inv :: "audio \<Rightarrow> bool" where
  "fading_inv a =
     (distinct (map ctx (timeouts a)) \<and> (\<forall>v\<in>set (timeouts a). ctx v \<notin> set (ctxClosed a)))"

section \<open>The playback state\<close>

text \<open>
  The five state variables of the component \<^verbatim>\<open>TimeTravelMode\<close>
  (\<^verbatim>\<open>client/src/components/TimeTravelMode.tsx\<close>), with their initial values.
\<close>

record playback =
  currentIndex :: int
  isAutoPlaying :: bool
  musicEnabled :: bool
  isStarted :: bool
  isTransitioning :: bool

definition initialPlayback :: playback where
  "initialPlayback =
     \<lparr>currentIndex = - 1, isAutoPlaying = True, musicEnabled = True,
      isStarted = False, isTransitioning = False\<rparr>"

definition TRAVEL_ZOOM :: int where
  "TRAVEL_ZOOM = 15"

definition ANIM_DURATION :: real where
  "ANIM_DURATION = 5000"

text \<open>The calls the component makes on the map: latitude, longitude, zoom, duration.\<close>

datatype camera = FlyTo real real int real | SetView real real int

definition handleTransitionComplete :: "playback \<Rightarrow> playback" where
  "handleTransitionComplete s = s\<lparr>isTransitioning := False, currentIndex := currentIndex s + 1\<rparr>"

text \<open>
  \<^verbatim>\<open>goNext\<close> is a callback: it reads \<^verbatim>\<open>isTransitioning\<close> and \<^verbatim>\<open>currentIndex\<close>
  of the render \<open>r\<close> that created it, and its setter acts on the state \<open>s\<close> at the
  time of the call. \<open>n\<close> is \<^verbatim>\<open>sortedMemories.length\<close>. A handler bound to a key
  or a button belongs to the latest render, so there \<open>r\<close> is \<open>s\<close>.
\<close>

definition goNextAt :: "nat \<Rightarrow> playback \<Rightarrow> playback \<Rightarrow> playback" where
  "goNextAt n r s =
     (if isTransitioning r then s
      else if currentIndex r < int n - 1 then s\<lparr>isTransitioning := True\<rparr>
      else s)"

definition goNext :: "nat \<Rightarrow> playback \<Rightarrow> playback" where
  "goNext n s = goNextAt n s s"

definition flyToMemory :: "bool \<Rightarrow> memory list \<Rightarrow> int \<Rightarrow> camera list" where
  "flyToMemory mapInstance sortedMemories index =
     (if \<not> mapInstance \<or> index < 0 \<or> index \<ge> int (length sortedMemories) then []
      else let m = sortedMemories ! nat index in [FlyTo (lat m) (lng m) TRAVEL_ZOOM 2])"

definition goPrev :: "bool \<Rightarrow> memory list \<Rightarrow> playback \<Rightarrow> playback \<times> camera list" where
  "goPrev mapInstance sortedMemories s =
     (if isTransitioning s then (s, [])
      else if currentIndex s > 0 then
        let prev = currentIndex s - 1
        in (s\<lparr>currentIndex := prev\<rparr>, flyToMemory mapInstance sortedMemories prev)
      else (s, []))"

text \<open>The handler of the skip-to-end button.\<close>

definition skipToEnd :: "bool \<Rightarrow> memory list \<Rightarrow> playback \<Rightarrow> playback \<times> camera list" where
  "skipToEnd mapInstance sortedMemories s =
     (if isTransitioning s then (s, [])
      else
        let last = int (length sortedMemories) - 1
        in (s\<lparr>currentIndex := last, isAutoPlaying := False\<rparr>,
            flyToMemory mapInstance sortedMemories last))"

definition toggleAutoplay :: "playback \<Rightarrow> playback" where
  "toggleAutoplay s = s\<lparr>isAutoPlaying := \<not> isAutoPlaying s\<rparr>"

text \<open>
  The condition under which the path effect of \<^verbatim>\<open>useAnimatedGlowingPath\<close> draws a
  segment (the fly to its start, the pause, the ticks).
\<close>

definition drawsSegment :: "nat \<Rightarrow> playback \<Rightarrow> bool" where
  "drawsSegment n s = (isTransitioning s \<and> currentIndex s < int n - 1)"

subsection \<open>Handlers that reach the music module\<close>

text \<open>
  The state of a handler that calls the music module is the playback state with
  the module's. A result carries the exception that left the handler, if any; the
  state updates a handler queued before the exception still take effect.
\<close>

definition startJourney ::
  "bool \<Rightarrow> real \<Rightarrow> playback \<times> audio \<Rightarrow> audio_error option \<times> playback \<times> audio" where
  "startJourney ctorOk now pa =
     (let s = (fst pa)\<lparr>isStarted := True, currentIndex := 0\<rparr>
      in if musicEnabled (fst pa) then
           (case startMusic ctorOk now (snd pa) of (e, a) \<Rightarrow> (e, s, a))
         else (None, s, snd pa))"

definition toggleMusic ::
  "bool \<Rightarrow> real \<Rightarrow> playback \<times> audio \<Rightarrow> audio_error option \<times> playback \<times> audio" where
  "toggleMusic ctorOk now pa =
     (if isMusicPlaying (snd pa) then
        (None, (fst pa)\<lparr>musicEnabled := False\<rparr>, stopMusic now (snd pa))
      else
        (case startMusic ctorOk now (snd pa) of
           (Some e, a) \<Rightarrow> (Some e, fst pa, a)
         | (None, a) \<Rightarrow> (None, (fst pa)\<lparr>musicEnabled := True\<rparr>, a)))"

text \<open>
  \<^verbatim>\<open>handleExit\<close> stops the music and flies the map back to the overview; the host's
  \<^verbatim>\<open>onExit\<close> is counted. (The autoplay timer it clears is in the autoplay model.)
\<close>

definition handleExit :: "real \<Rightarrow> bool \<Rightarrow> audio \<Rightarrow> audio \<times> camera list" where
  "handleExit now mapInstance a =
     (stopMusic now a, if mapInstance then [FlyTo 1.3521 103.8198 12 1.5] else [])"

subsection \<open>What the rendered component offers\<close>

text \<open>
  The events of the user. The key handler is bound to the window by an effect and
  is there whatever the component renders. The buttons exist only in what is
  rendered: nothing when the timeline is empty, the intro screen before the start,
  the controls after it (with their \<^verbatim>\<open>disabled\<close> conditions).
\<close>

datatype ui_event =
  ClickStart | ClickEscHint | ClickClose | ClickPrev | ClickPlayPause | ClickNext
| ClickMusic | ClickSkip | KeyEscape | KeyArrowRight | KeySpace | KeyArrowLeft

fun isKey :: "ui_event \<Rightarrow> bool" where
  "isKey KeyEscape = True"
| "isKey KeyArrowRight = True"
| "isKey KeySpace = True"
| "isKey KeyArrowLeft = True"
| "isKey _ = False"

definition controlsShown :: "playback \<Rightarrow> bool" where
  "controlsShown s = (isStarted s \<and> currentIndex s \<ge> 0)"

fun buttonShown :: "nat \<Rightarrow> playback \<Rightarrow> ui_event \<Rightarrow> bool" where
  "buttonShown n s ClickStart = (\<not> isStarted s)"
| "buttonShown n s ClickEscHint = (\<not> isStarted s)"
| "buttonShown n s ClickClose = controlsShown s"
| "buttonShown n s ClickPlayPause = controlsShown s"
| "buttonShown n s ClickMusic = controlsShown s"
| "buttonShown n s ClickPrev = (controlsShown s \<and> \<not> (currentIndex s \<le> 0 \<or> isTransitioning s))"
| "buttonShown n s ClickNext = (controlsShown s \<and> \<not> (currentIndex s \<ge> int n - 1 \<or> isTransitioning s))"
| "buttonShown n s ClickSkip = (controlsShown s \<and> \<not> isTransitioning s)"
| "buttonShown n s _ = False"

definition offered :: "nat \<Rightarrow> playback \<Rightarrow> ui_event \<Rightarrow> bool" where
  "offered n s e = (isKey e \<or> (n \<noteq> 0 \<and> buttonShown n s e))"

record ui =
  pb :: playback
  au :: audio
  cam :: "camera list"
  exits :: nat

definition exitUi :: "real \<Rightarrow> bool \<Rightarrow> ui \<Rightarrow> ui" where
  "exitUi now mapInstance w =
     (case handleExit now mapInstance (au w) of
        (a, cs) \<Rightarrow> w\<lparr>au := a, cam := cam w @ cs, exits := exits w + 1\<rparr>)"

fun handle :: "bool \<Rightarrow> real \<Rightarrow> bool \<Rightarrow> memory list \<Rightarrow> ui \<Rightarrow> ui_event \<Rightarrow> ui" where
  "handle ctorOk now mapInstance ms w ClickStart =
     (case startJourney ctorOk now (pb w, au w) of (e, s, a) \<Rightarrow> w\<lparr>pb := s, au := a\<rparr>)"
| "handle ctorOk now mapInstance ms w ClickMusic =
     (case toggleMusic ctorOk now (pb w, au w) of (e, s, a) \<Rightarrow> w\<lparr>pb := s, au := a\<rparr>)"
| "handle ctorOk now mapInstance ms w ClickPlayPause = w\<lparr>pb := toggleAutoplay (pb w)\<rparr>"
| "handle ctorOk now mapInstance ms w ClickSkip =
     (case skipToEnd mapInstance ms (pb w) of (s, cs) \<Rightarrow> w\<lparr>pb := s, cam := cam w @ cs\<rparr>)"
| "handle ctorOk now mapInstance ms w ClickPrev =
     (case goPrev mapInstance ms (pb w) of (s, cs) \<Rightarrow> w\<lparr>pb := s, cam := cam w @ cs\<rparr>)"
| "handle ctorOk now mapInstance ms w KeyArrowLeft =
     (case goPrev mapInstance ms (pb w) of (s, cs) \<Rightarrow> w\<lparr>pb := s, cam := cam w @ cs\<rparr>)"
| "handle ctorOk now mapInstance ms w ClickNext = w\<lparr>pb := goNext (length ms) (pb w)\<rparr>"
| "handle ctorOk now mapInstance ms w KeyArrowRight = w\<lparr>pb := goNext (length ms) (pb w)\<rparr>"
| "handle ctorOk now mapInstance ms w KeySpace = w\<lparr>pb := goNext (length ms) (pb w)\<rparr>"
| "handle ctorOk now mapInstance ms w ClickEscHint = exitUi now mapInstance w"
| "handle ctorOk now mapInstance ms w ClickClose = exitUi now mapInstance w"
| "handle ctorOk now mapInstance ms w KeyEscape = exitUi now mapInstance w"

definition ui_step :: "bool \<Rightarrow> real \<Rightarrow> bool \<Rightarrow> memory list \<Rightarrow> ui \<Rightarrow> ui_event \<Rightarrow> ui" where
  "ui_step ctorOk now mapInstance ms w e =
     (if offered (length ms) (pb w) e then handle ctorOk now mapInstance ms w e else w)"

definition initialUi :: ui where
  "initialUi = \<lparr>pb = initialPlayback, au = initialAudio, cam = [], exits = 0\<rparr>"

definition arrived :: "int \<Rightarrow> playback" where
  "arrived i = initialPlayback\<lparr>isStarted := True, currentIndex := i\<rparr>"

text \<open>Navigation as a trace: calls of \<^verbatim>\<open>goNext\<close> and completions of the animation.\<close>

datatype nav_event = Next | Completed

fun nav_step :: "nat \<Rightarrow> playback \<Rightarrow> nav_event \<Rightarrow> playback" where
  "nav_step n s Next = goNext n s"
| "nav_step n s Completed = handleTransitionComplete s"

text \<open>The state after a start for which the host refused the audio context.\<close>

definition afterRefusedStart :: "playback \<times> audio" where
  "afterRefusedStart = snd (startJourney False 0 (initialPlayback, initialAudio))"

section \<open>The autoplay timer\<close>

text \<open>
  The autoplay effect of \<^verbatim>\<open>TimeTravelMode\<close> sets a timeout of 4000 ms whose
  callback closed over \<^verbatim>\<open>currentIndex\<close>, \<^verbatim>\<open>sortedMemories.length\<close> and
  \<^verbatim>\<open>goNext\<close> of the render that ran the effect. The world of the model is the
  playback state, the music module, the sorted memories, the timeouts pending in
  the host (id, the render captured, the length captured), the ref
  \<^verbatim>\<open>autoPlayTimerRef\<close>, whether the last run of the effect returned its clean-up
  function, and the last timer id handed out.
\<close>

record autoplay =
  st :: playback
  mus :: audio
  mems :: "memory list"
  pending :: "(nat \<times> playback \<times> nat) list"
  autoPlayTimerRef :: "nat option"
  cleanupSet :: bool
  lastTimer :: nat

definition AUTOPLAY_DELAY :: nat where
  "AUTOPLAY_DELAY = 4000"

text \<open>The body of the effect: the guard, then \<^verbatim>\<open>setTimeout\<close>.\<close>

definition autoplayEffect :: "autoplay \<Rightarrow> autoplay" where
  "autoplayEffect w =
     (let s = st w
      in if \<not> isStarted s \<or> \<not> isAutoPlaying s \<or> currentIndex s < 0 \<or> isTransitioning s
         then w\<lparr>cleanupSet := False\<rparr>
         else
           let t = lastTimer w + 1
           in w\<lparr>lastTimer := t,
                pending := pending w @ [(t, s, length (mems w))],
                autoPlayTimerRef := Some t,
                cleanupSet := True\<rparr>)"

text \<open>
  The clean-up function of the effect, where the last run returned one:
  \<^verbatim>\<open>if (autoPlayTimerRef.current) clearTimeout(autoPlayTimerRef.current)\<close>.
\<close>

definition clearAutoplayTimer :: "autoplay \<Rightarrow> autoplay" where
  "clearAutoplayTimer w =
     (case autoPlayTimerRef w of
        None \<Rightarrow> w
      | Some t \<Rightarrow> w\<lparr>pending := filter (\<lambda>x. fst x \<noteq> t) (pending w)\<rparr>)"

definition autoplayCleanup :: "autoplay \<Rightarrow> autoplay" where
  "autoplayCleanup w = (if cleanupSet w then clearAutoplayTimer w else w)"

text \<open>
  The dependencies of the effect. \<^verbatim>\<open>goNext\<close> is among them; it is a new function
  exactly when \<^verbatim>\<open>currentIndex\<close>, the length or \<^verbatim>\<open>isTransitioning\<close> changed.
\<close>

definition deps :: "autoplay \<Rightarrow> bool \<times> bool \<times> int \<times> nat \<times> bool" where
  "deps w =
     (isStarted (st w), isAutoPlaying (st w), currentIndex (st w), length (mems w),
      isTransitioning (st w))"

text \<open>The callback of the timeout, with the values it closed over.\<close>

definition autoplayCallback :: "playback \<Rightarrow> nat \<Rightarrow> playback \<Rightarrow> playback" where
  "autoplayCallback r n s =
     (if currentIndex r < int n - 1 then goNextAt n r s else s\<lparr>isAutoPlaying := False\<rparr>)"

datatype ap_event =
  ApStart bool real
| ApNext
| ApPrev
| ApPlayPause
| ApSkip
| ApMusic bool real
| ApComplete
| ApFires nat
| ApMemories "memory list"
| ApExit real

fun ap_apply :: "bool \<Rightarrow> autoplay \<Rightarrow> ap_event \<Rightarrow> autoplay" where
  "ap_apply mapInstance w (ApStart ctorOk now) =
     (case startJourney ctorOk now (st w, mus w) of (e, s, a) \<Rightarrow> w\<lparr>st := s, mus := a\<rparr>)"
| "ap_apply mapInstance w ApNext = w\<lparr>st := goNext (length (mems w)) (st w)\<rparr>"
| "ap_apply mapInstance w ApPrev = w\<lparr>st := fst (goPrev mapInstance (mems w) (st w))\<rparr>"
| "ap_apply mapInstance w ApPlayPause = w\<lparr>st := toggleAutoplay (st w)\<rparr>"
| "ap_apply mapInstance w ApSkip = w\<lparr>st := fst (skipToEnd mapInstance (mems w) (st w))\<rparr>"
| "ap_apply mapInstance w (ApMusic ctorOk now) =
     (case toggleMusic ctorOk now (st w, mus w) of (e, s, a) \<Rightarrow> w\<lparr>st := s, mus := a\<rparr>)"
| "ap_apply mapInstance w ApComplete = w\<lparr>st := handleTransitionComplete (st w)\<rparr>"
| "ap_apply mapInstance w (ApFires t) =
     (case filter (\<lambda>x. fst x = t) (pending w) of
        [] \<Rightarrow> w
      | x # _ \<Rightarrow>
          w\<lparr>pending := filter (\<lambda>x. fst x \<noteq> t) (pending w),
            st := autoplayCallback (fst (snd x)) (snd (snd x)) (st w)\<rparr>)"
| "ap_apply mapInstance w (ApMemories ms) = w\<lparr>mems := ms\<rparr>"
| "ap_apply mapInstance w (ApExit now) =
     (clearAutoplayTimer w)\<lparr>mus := fst (handleExit now mapInstance (mus w))\<rparr>"

text \<open>
  One event and the render that follows it: when a dependency changed, the
  clean-up of the previous run and then the effect.
\<close>

definition ap_step :: "bool \<Rightarrow> autoplay \<Rightarrow> ap_event \<Rightarrow> autoplay" where
  "ap_step mapInstance w e =
     (let w' = ap_apply mapInstance w e
      in if deps w' = deps w then w' else autoplayEffect (autoplayCleanup w'))"

definition initialAutoplay :: "memory list \<Rightarrow> autoplay" where
  "initialAutoplay ms =
     \<lparr>st = initialPlayback, mus = initialAudio, mems = ms, pending = [],
      autoPlayTimerRef = None, cleanupSet = False, lastTimer = 0\<rparr>"

definition ap_run :: "bool \<Rightarrow> memory list \<Rightarrow> ap_event list \<Rightarrow> autoplay" where
  "ap_run mapInstance ms evs = foldl (ap_step mapInstance) (initialAutoplay ms) evs"

text \<open>The state in which the effect schedules a timer.\<close>

definition schedulable :: "playback \<Rightarrow> bool" where
  "schedulable s = (isStarted s \<and> isAutoPlaying s \<and> 0 \<le> currentIndex s \<and> \<not> isTransitioning s)"

text \<open>A pending timeout is current: what its callback closed over is what the state holds.\<close>

definition current :: "autoplay \<Rightarrow> nat \<times> playback \<times> nat \<Rightarrow> bool" where
  "current w x =
     (snd (snd x) = length (mems w)
      \<and> isStarted (fst (snd x)) = isStarted (st w)
      \<and> isAutoPlaying (fst (snd x)) = isAutoPlaying (st w)
      \<and> currentIndex (fst (snd x)) = currentIndex (st w)
      \<and> isTransitioning (fst (snd x)) = isTransitioning (st w))"

definition ap_weak :: "autoplay \<Rightarrow> bool" where
  "ap_weak w =
     ((\<forall>x\<in>set (pending w). fst x \<le> lastTimer w)
      \<and> (pending w = [] \<or> (\<exists>x. pending w = [x] \<and> autoPlayTimerRef w = Some (fst x) \<and> cleanupSet w)))"

definition ap_inv :: "autoplay \<Rightarrow> bool" where
  "ap_inv w = (ap_weak w \<and> (\<forall>x\<in>set (pending w). current w x \<and> schedulable (st w)))"

text \<open>Two worlds of the scenario: at the first record, and at the last with autoplay on.\<close>

definition atFirst :: autoplay where
  "atFirst = ap_run True scenario [ApStart True 0]"

definition atLast :: autoplay where
  "atLast = ap_run True scenario [ApStart True 0, ApNext, ApComplete, ApNext, ApComplete]"

section \<open>The path animator\<close>

text \<open>
  The effect of \<^verbatim>\<open>useAnimatedGlowingPath\<close>. Each run of the effect that draws a
  segment is a session, numbered from 1. The refs \<^verbatim>\<open>cancelRef\<close> and \<^verbatim>\<open>rafRef\<close>
  belong to the hook, so all runs of the effect share them. The host holds what a
  session has left pending: its \<^verbatim>\<open>onFlyEnd\<close> listener on the map's
  \<^verbatim>\<open>moveend\<close>, its timeout of 400 ms, its animation frame request (the handle,
  the session, and the \<^verbatim>\<open>startTime\<close> variable of the session's closure).
  The trace records every tick that got past the cancellation check and every
  completion signal, with the session that made it.
\<close>

datatype anim_action = Ticked nat | Signalled nat

record animator =
  view :: playback
  count :: nat                 \<comment> \<open>\<^verbatim>\<open>sortedMemories.length\<close>\<close>
  hasMap :: bool
  mounted :: bool
  crashed :: bool              \<comment> \<open>the effect threw on \<^verbatim>\<open>sortedMemories[-1].lat\<close>\<close>
  cancelRef :: bool
  rafRef :: "nat option"
  hasCleanup :: bool           \<comment> \<open>the last run of the effect returned its clean-up\<close>
  listeners :: "nat list"
  pauses :: "nat list"
  frames :: "(nat \<times> nat \<times> real option) list"
  lastHandle :: nat
  lastSession :: nat
  trace :: "anim_action list"

text \<open>\<^verbatim>\<open>cleanupLayers\<close>, as far as it concerns the frame request.\<close>

definition cleanupLayers :: "animator \<Rightarrow> animator" where
  "cleanupLayers w =
     (if \<not> hasMap w then w
      else
        (case rafRef w of
           None \<Rightarrow> w
         | Some h \<Rightarrow> w\<lparr>frames := filter (\<lambda>f. fst f \<noteq> h) (frames w), rafRef := None\<rparr>))"

text \<open>
  The body of the effect. Without a map it returns at once, with no clean-up
  function. Otherwise it resets \<^verbatim>\<open>cancelRef\<close>, removes the layers and, when a
  segment is to be drawn, starts the fly to its first point and registers
  \<^verbatim>\<open>onFlyEnd\<close>. At \<open>currentIndex = - 1\<close> the first point is
  \<^verbatim>\<open>sortedMemories[-1]\<close>, which is undefined, and reading its \<^verbatim>\<open>lat\<close> throws.
\<close>

definition pathEffect :: "animator \<Rightarrow> animator" where
  "pathEffect w =
     (if \<not> hasMap w then w\<lparr>hasCleanup := False\<rparr>
      else
        let w1 = cleanupLayers (w\<lparr>cancelRef := False\<rparr>)
        in if drawsSegment (count w1) (view w1) then
             (if currentIndex (view w1) < 0 then w1\<lparr>crashed := True, hasCleanup := False\<rparr>
              else
                let s = lastSession w1 + 1
                in w1\<lparr>lastSession := s, listeners := listeners w1 @ [s], hasCleanup := True\<rparr>)
           else w1\<lparr>hasCleanup := True\<rparr>)"

text \<open>The clean-up function the effect returns.\<close>

definition pathCleanup :: "animator \<Rightarrow> animator" where
  "pathCleanup w = (if hasCleanup w then cleanupLayers (w\<lparr>cancelRef := True\<rparr>) else w)"

definition rerun :: "animator \<Rightarrow> animator" where
  "rerun w = pathEffect (pathCleanup w)"

text \<open>
  \<^verbatim>\<open>moveend\<close>: every registered \<^verbatim>\<open>onFlyEnd\<close> runs, removes itself and, unless
  \<^verbatim>\<open>cancelRef\<close> is set, sets its timeout of 400 ms.
\<close>

definition onMoveEnd :: "animator \<Rightarrow> animator" where
  "onMoveEnd w =
     w\<lparr>listeners := [], pauses := pauses w @ (if cancelRef w then [] else listeners w)\<rparr>"

text \<open>The timeout of session \<open>s\<close> fires: unless cancelled, it requests the first frame.\<close>

definition onPauseOver :: "nat \<Rightarrow> animator \<Rightarrow> animator" where
  "onPauseOver s w =
     (if s \<notin> set (pauses w) then w
      else
        let w1 = w\<lparr>pauses := remove1 s (pauses w)\<rparr>
        in if cancelRef w1 then w1
           else
             let h = lastHandle w1 + 1
             in w1\<lparr>lastHandle := h, frames := frames w1 @ [(h, s, None)], rafRef := Some h\<rparr>)"

text \<open>
  \<^verbatim>\<open>animate(now)\<close> of session \<open>s\<close> whose closure holds \<open>startTime\<close>: the
  cancellation check, the elapsed share of \<open>ANIM_DURATION\<close>, then either the next
  frame request or \<^verbatim>\<open>onTransitionComplete()\<close>.
\<close>

definition animate :: "real \<Rightarrow> nat \<Rightarrow> real option \<Rightarrow> animator \<Rightarrow> animator" where
  "animate now s startTime w =
     (if cancelRef w then w
      else
        let t0 = (case startTime of None \<Rightarrow> now | Some t \<Rightarrow> t);
            elapsed = now - t0;
            rawT = min (elapsed / ANIM_DURATION) 1;
            w1 = w\<lparr>trace := trace w @ [Ticked s]\<rparr>
        in if rawT < 1 then
             let h = lastHandle w1 + 1
             in w1\<lparr>lastHandle := h, frames := frames w1 @ [(h, s, Some t0)], rafRef := Some h\<rparr>
           else
             w1\<lparr>trace := trace w1 @ [Signalled s],
                view := (if mounted w1 then handleTransitionComplete (view w1) else view w1)\<rparr>)"

text \<open>
  An animation frame of the host at time \<open>now\<close>: the requests pending at its
  start run in order; the render that their state updates ask for follows.
\<close>

definition runFrames :: "real \<Rightarrow> (nat \<times> nat \<times> real option) list \<Rightarrow> animator \<Rightarrow> animator" where
  "runFrames now fs w = foldl (\<lambda>v f. animate now (fst (snd f)) (snd (snd f)) v) w fs"

definition afterUpdate :: "animator \<Rightarrow> animator \<Rightarrow> animator" where
  "afterUpdate old w =
     (if mounted w \<and> \<not> crashed w
         \<and> (currentIndex (view w), isTransitioning (view w))
             \<noteq> (currentIndex (view old), isTransitioning (view old))
      then rerun w else w)"

definition onFrame :: "real \<Rightarrow> animator \<Rightarrow> animator" where
  "onFrame now w = afterUpdate w (runFrames now (frames w) (w\<lparr>frames := []\<rparr>))"

text \<open>
  The events: the start, \<open>goNext\<close>, a render with a new \<^verbatim>\<open>sortedMemories\<close> array
  (or map) of the same length, the unmount (also what the host does on exit), and
  the three callbacks of the host.
\<close>

datatype anim_event =
  Starts | Goes | Rerenders | Unmounts | MoveEnd | PauseOver nat | Frame real

fun anim_step :: "animator \<Rightarrow> anim_event \<Rightarrow> animator" where
  "anim_step w Starts =
     (if mounted w \<and> \<not> crashed w
      then afterUpdate w (w\<lparr>view := (view w)\<lparr>isStarted := True, currentIndex := 0\<rparr>\<rparr>) else w)"
| "anim_step w Goes =
     (if mounted w \<and> \<not> crashed w
      then afterUpdate w (w\<lparr>view := goNext (count w) (view w)\<rparr>) else w)"
| "anim_step w Rerenders = (if mounted w \<and> \<not> crashed w then rerun w else w)"
| "anim_step w Unmounts =
     (if mounted w then (pathCleanup w)\<lparr>mounted := False, hasCleanup := False\<rparr> else w)"
| "anim_step w MoveEnd = onMoveEnd w"
| "anim_step w (PauseOver s) = onPauseOver s w"
| "anim_step w (Frame now) = onFrame now w"

text \<open>The component after its mount: the effect has run once.\<close>

definition initialAnimator :: "nat \<Rightarrow> bool \<Rightarrow> animator" where
  "initialAnimator n m =
     pathEffect
       \<lparr>view = initialPlayback, count = n, hasMap = m, mounted = True, crashed = False,
        cancelRef = False, rafRef = None, hasCleanup = False, listeners = [], pauses = [],
        frames = [], lastHandle = 0, lastSession = 0, trace = []\<rparr>"

definition anim_run :: "nat \<Rightarrow> anim_event list \<Rightarrow> animator" where
  "anim_run n evs = foldl anim_step (initialAnimator n True) evs"

text \<open>
  The trace of the failing input: a segment in flight, then a render with a new
  array of the same records.
\<close>

definition replacedInFlight :: "anim_event list" where
  "replacedInFlight = [Starts, Goes, Rerenders]"

definition hostCarriesOn :: "anim_event list" where
  "hostCarriesOn = [MoveEnd, PauseOver 1, PauseOver 2, Frame 0, Frame 5000]"

text \<open>Nothing observable happened between two worlds, and the flag is still set.\<close>

definition quiet :: "animator \<Rightarrow> animator \<Rightarrow> bool" where
  "quiet w w' = (trace w' = trace w \<and> view w' = view w \<and> cancelRef w' \<and> mounted w' = mounted w)"

section \<open>Properties of the sorter\<close>

text \<open>
  The effective timestamp the code computes is the one of the specification: the
  user-supplied date when present, else the creation instant.
\<close>

lemma effectiveTime_timestampOf: "effectiveTime dateMs m = timestampOf dateMs m"
  by (simp add: effectiveTime_def timestampOf_def userDate_def split: option.splits)

lemma stampOf_timestampOf:
  "timestampOf dateMs m = Some t \<Longrightarrow> stampOf dateMs m = t"
  by (simp add: stampOf_def effectiveTime_timestampOf)

lemma sortCompare_resolved:
  assumes "timestampOf dateMs x \<noteq> None" "timestampOf dateMs y \<noteq> None"
  shows "sortCompare (compareFn dateMs) x y = stampOf dateMs x - stampOf dateMs y"
    and "compareFn dateMs x y \<noteq> None"
  using assms
  by (auto simp: sortCompare_def compareFn_def stampOf_def effectiveTime_timestampOf)

lemma consistent_resolved:
  assumes "\<forall>m\<in>set ms. timestampOf dateMs m \<noteq> None"
  shows "consistentOn (compareFn dateMs) ms"
  unfolding consistentOn_def
proof (intro ballI conjI impI)
  fix a b c
  assume m: "a \<in> set ms" "b \<in> set ms" "c \<in> set ms"
  note ab = sortCompare_resolved [of dateMs a b] and bc = sortCompare_resolved [of dateMs b c]
    and ac = sortCompare_resolved [of dateMs a c] and ba = sortCompare_resolved [of dateMs b a]
    and aa = sortCompare_resolved [of dateMs a a]
  have r: "timestampOf dateMs a \<noteq> None" "timestampOf dateMs b \<noteq> None" "timestampOf dateMs c \<noteq> None"
    using assms m by auto
  show "sortCompare (compareFn dateMs) a a = 0" using aa(1) r by simp
  show "compareFn dateMs a b \<noteq> None" using ab(2) r by simp
  show "sortCompare (compareFn dateMs) b a = 0" if "sortCompare (compareFn dateMs) a b = 0"
    using that ab(1) ba(1) r by simp
  show "sortCompare (compareFn dateMs) a c = 0"
    if "sortCompare (compareFn dateMs) a b = 0 \<and> sortCompare (compareFn dateMs) b c = 0"
    using that ab(1) bc(1) ac(1) r by simp
  show "sortCompare (compareFn dateMs) a c < 0"
    if "sortCompare (compareFn dateMs) a b < 0 \<and> sortCompare (compareFn dateMs) b c < 0"
    using that ab(1) bc(1) ac(1) r by simp
  show "0 < sortCompare (compareFn dateMs) a c"
    if "0 < sortCompare (compareFn dateMs) a b \<and> 0 < sortCompare (compareFn dateMs) b c"
    using that ab(1) bc(1) ac(1) r by simp
qed

lemma js_insert_insort_key:
  assumes "timestampOf dateMs x \<noteq> None" "\<forall>y\<in>set ys. timestampOf dateMs y \<noteq> None"
  shows "js_insert (compareFn dateMs) x ys = insort_key (stampOf dateMs) x ys"
  using assms by (induction ys) (simp_all add: sortCompare_resolved)

lemma insertion_sort_key:
  assumes "\<forall>m\<in>set ms. timestampOf dateMs m \<noteq> None"
  shows "foldr (js_insert (compareFn dateMs)) ms [] = sort_key (stampOf dateMs) ms"
  using assms
proof (induction ms)
  case Nil
  show ?case by simp
next
  case (Cons m ms)
  then have ih: "foldr (js_insert (compareFn dateMs)) ms [] = sort_key (stampOf dateMs) ms" by simp
  have "\<forall>y\<in>set (sort_key (stampOf dateMs) ms). timestampOf dateMs y \<noteq> None"
    using Cons.prems by simp
  with Cons.prems ih show ?case
    by (simp add: js_insert_insort_key)
qed

lemma js_sort_sort_key:
  assumes "\<forall>m\<in>set ms. timestampOf dateMs m \<noteq> None"
  shows "js_sort engine (compareFn dateMs) ms = sort_key (stampOf dateMs) ms"
  using assms by (simp add: js_sort_def consistent_resolved insertion_sort_key)

lemma notLater_resolved:
  assumes "timestampOf dateMs a \<noteq> None" "timestampOf dateMs b \<noteq> None"
  shows "notLater dateMs a b \<longleftrightarrow> stampOf dateMs a \<le> stampOf dateMs b"
  using assms by (auto simp: notLater_def stampOf_def effectiveTime_timestampOf)

lemma sorted_wrt_notLater:
  assumes "\<forall>m\<in>set ms. timestampOf dateMs m \<noteq> None"
  shows "sorted_wrt (notLater dateMs) ms \<longleftrightarrow> sorted (map (stampOf dateMs) ms)"
  using assms by (induction ms) (auto simp: notLater_resolved)

lemma stamp_filter:
  assumes "\<forall>m\<in>set ms. timestampOf dateMs m \<noteq> None"
  shows "filter (\<lambda>m. timestampOf dateMs m = Some t) ms = filter (\<lambda>m. stampOf dateMs m = t) ms"
  using assms by (induction ms) (auto simp: stampOf_def effectiveTime_timestampOf)

lemma sortChronologically_props:
  assumes res: "\<forall>m\<in>set ms. timestampOf dateMs m \<noteq> None"
  shows "sorted_wrt (notLater dateMs) (sortChronologically engine dateMs ms)"
    and "mset (sortChronologically engine dateMs ms) = mset ms"
    and "filter (\<lambda>m. timestampOf dateMs m = Some t) (sortChronologically engine dateMs ms)
           = filter (\<lambda>m. timestampOf dateMs m = Some t) ms"
    and "sortChronologically engine dateMs (sortChronologically engine dateMs ms)
           = sortChronologically engine dateMs ms"
    and "sorted_wrt (notLater dateMs) ms \<Longrightarrow> sortChronologically engine dateMs ms = ms"
    and "sortChronologically engine dateMs ms = sort_key (stampOf dateMs) ms"
proof -
  let ?k = "stampOf dateMs"
  show eq: "sortChronologically engine dateMs ms = sort_key ?k ms"
    using res by (simp add: sortChronologically_def js_sort_sort_key)
  have res': "\<forall>m\<in>set (sort_key ?k ms). timestampOf dateMs m \<noteq> None"
    using res by simp
  show "sorted_wrt (notLater dateMs) (sortChronologically engine dateMs ms)"
    unfolding eq using res' by (simp add: sorted_wrt_notLater)
  show "mset (sortChronologically engine dateMs ms) = mset ms"
    unfolding eq by simp
  show "filter (\<lambda>m. timestampOf dateMs m = Some t) (sortChronologically engine dateMs ms)
           = filter (\<lambda>m. timestampOf dateMs m = Some t) ms"
    unfolding eq using res res' by (simp add: stamp_filter sort_key_stable)
  have "sortChronologically engine dateMs (sort_key ?k ms) = sort_key ?k (sort_key ?k ms)"
    using res' by (simp add: sortChronologically_def js_sort_sort_key)
  also have "\<dots> = sort_key ?k ms"
    by (simp add: sort_key_id_if_sorted)
  finally show "sortChronologically engine dateMs (sortChronologically engine dateMs ms)
                  = sortChronologically engine dateMs ms"
    unfolding eq .
  show "sortChronologically engine dateMs ms = ms" if "sorted_wrt (notLater dateMs) ms"
    unfolding eq using that res by (simp add: sorted_wrt_notLater sort_key_id_if_sorted)
qed

text \<open>The instants of the three dates of the scenario.\<close>

lemma scenario_dates:
  "calendarDateMs ''2024-01-01'' = Some 1704067200000"
  "calendarDateMs ''2024-06-15'' = Some 1718409600000"
  "calendarDateMs ''2023-12-25'' = Some 1703462400000"
  by code_simp+

lemma scenario_sorted:
  assumes "readsCalendarDates dateMs"
  shows "map memoryDate (sortChronologically engine dateMs scenario)
           = [Some ''2023-12-25'', Some ''2024-01-01'', Some ''2024-06-15'']"
proof -
  have d: "dateMs ''2024-01-01'' = Some 1704067200000"
    "dateMs ''2024-06-15'' = Some 1718409600000"
    "dateMs ''2023-12-25'' = Some 1703462400000"
    using assms scenario_dates by (simp_all add: readsCalendarDates_def)
  have t: "timestampOf dateMs (dated ''r1'' ''2024-01-01'') = Some 1704067200000"
    "timestampOf dateMs (dated ''r2'' ''2024-06-15'') = Some 1718409600000"
    "timestampOf dateMs (dated ''r3'' ''2023-12-25'') = Some 1703462400000"
    using d by (simp_all add: timestampOf_def userDate_def dated_def)
  have res: "\<forall>m\<in>set scenario. timestampOf dateMs m \<noteq> None"
    using t by (simp add: scenario_def)
  have k: "stampOf dateMs (dated ''r1'' ''2024-01-01'') = 1704067200000"
    "stampOf dateMs (dated ''r2'' ''2024-06-15'') = 1718409600000"
    "stampOf dateMs (dated ''r3'' ''2023-12-25'') = 1703462400000"
    using t by (simp_all add: stampOf_timestampOf)
  have "sortChronologically engine dateMs scenario = sort_key (stampOf dateMs) scenario"
    by (rule sortChronologically_props(6) [OF res])
  also have "\<dots> = [dated ''r3'' ''2023-12-25'', dated ''r1'' ''2024-01-01'', dated ''r2'' ''2024-06-15'']"
    using k by (simp add: scenario_def)
  finally show ?thesis by (simp add: dated_def)
qed

lemma reads_calendar: "readsCalendarDates calendarDateMs"
  by (simp add: readsCalendarDates_def)

text \<open>
  C3, as stated, fails on a list that holds a record whose \<^verbatim>\<open>memoryDate\<close> no host
  resolves (\<^verbatim>\<open>new Date("garbage").getTime()\<close> is \<^verbatim>\<open>NaN\<close>): the record has no
  effective timestamp, the comparator returns \<^verbatim>\<open>NaN\<close> and is not consistent, so
  the language leaves the order to the engine; and neither order of the two
  records is one of non-decreasing effective timestamps.
\<close>

theorem sortChronologically_unreadable_counterexample:
  "timestampOf calendarDateMs june = Some 1718409600000
   \<and> timestampOf calendarDateMs unreadable = None
   \<and> compareFn calendarDateMs june unreadable = None
   \<and> \<not> consistentOn (compareFn calendarDateMs) [june, unreadable]
   \<and> sortChronologically asGiven calendarDateMs [june, unreadable] = [june, unreadable]
   \<and> \<not> sorted_wrt (notLater calendarDateMs) [june, unreadable]
   \<and> \<not> sorted_wrt (notLater calendarDateMs) [unreadable, june]"
  by code_simp

text \<open>
  C3, amended. On every list of memories whose effective timestamps all resolve
  (the user-supplied \<^verbatim>\<open>memoryDate\<close> when present, else the creation instant
  \<^verbatim>\<open>createdAt\<close>), and with every engine, \<open>sortChronologically\<close> is a function of
  its input that returns the same records ordered by non-decreasing effective
  timestamp, keeps the input order among the records of each timestamp
  (stability), returns an already ordered list as it is, and is idempotent. With
  a host that reads calendar dates, the three records dated 2024-01-01,
  2024-06-15 and 2023-12-25 come out as 2023-12-25, 2024-01-01, 2024-06-15.
\<close>

theorem sortChronologically_stable_sorted:
  assumes "\<forall>m\<in>set ms. timestampOf dateMs m \<noteq> None"
  shows "sorted_wrt (notLater dateMs) (sortChronologically engine dateMs ms)
       \<and> mset (sortChronologically engine dateMs ms) = mset ms
       \<and> (\<forall>t. filter (\<lambda>m. timestampOf dateMs m = Some t) (sortChronologically engine dateMs ms)
                = filter (\<lambda>m. timestampOf dateMs m = Some t) ms)
       \<and> (sorted_wrt (notLater dateMs) ms \<longrightarrow> sortChronologically engine dateMs ms = ms)
       \<and> sortChronologically engine dateMs (sortChronologically engine dateMs ms)
           = sortChronologically engine dateMs ms
       \<and> (readsCalendarDates dateMs \<longrightarrow>
            map memoryDate (sortChronologically engine dateMs scenario)
              = [Some ''2023-12-25'', Some ''2024-01-01'', Some ''2024-06-15''])"
  using sortChronologically_props(1-5) [OF assms] scenario_sorted by blast

theorem sortChronologically_stable_sorted_witness:
  "map createdAt (sortChronologically asGiven calendarDateMs createdOnly) = [3, 4, 5]
   \<and> map memId (sortChronologically asGiven calendarDateMs createdOnly) = [''u2'', ''u3'', ''u1'']
   \<and> sorted_wrt (notLater calendarDateMs) (sortChronologically asGiven calendarDateMs createdOnly)
   \<and> mset (sortChronologically asGiven calendarDateMs createdOnly) = mset createdOnly
   \<and> sortChronologically asGiven calendarDateMs (sortChronologically asGiven calendarDateMs createdOnly)
       = sortChronologically asGiven calendarDateMs createdOnly
   \<and> sortChronologically asGiven calendarDateMs [createdOnly ! 1, createdOnly ! 2] = [createdOnly ! 1, createdOnly ! 2]
   \<and> map memoryDate (sortChronologically asGiven calendarDateMs scenario)
       = [Some ''2023-12-25'', Some ''2024-01-01'', Some ''2024-06-15'']"
proof -
  have r1: "\<forall>m\<in>set createdOnly. timestampOf calendarDateMs m \<noteq> None"
    by code_simp
  have r2: "\<forall>m\<in>set [createdOnly ! 1, createdOnly ! 2]. timestampOf calendarDateMs m \<noteq> None"
    by code_simp
  have s2: "sorted_wrt (notLater calendarDateMs) [createdOnly ! 1, createdOnly ! 2]"
    by code_simp
  have v: "map createdAt (sortChronologically asGiven calendarDateMs createdOnly) = [3, 4, 5]"
    "map memId (sortChronologically asGiven calendarDateMs createdOnly) = [''u2'', ''u3'', ''u1'']"
    by code_simp+
  show ?thesis
    using sortChronologically_stable_sorted [OF r1, of asGiven]
      sortChronologically_stable_sorted [OF r2, of asGiven] s2 v reads_calendar
    by simp
qed

lemma sortChronologically_st_result:
  assumes "memories < length h"
  shows "sortChronologically_st engine dateMs h memories
           = Some ((h @ [sortChronologically engine dateMs (h ! memories)]), length h)"
  using assms
  by (simp add: sortChronologically_st_def spread_def array_sort_def sortChronologically_def
      nth_append)

text \<open>
  C10. \<open>sortChronologically\<close> returns a fresh array: the reference it returns is
  none of the store's references before the call, every array that was in the store
  (the input among them) holds the same records in the same order afterwards, and
  the new array holds the sorted records.
\<close>

theorem sortChronologically_fresh_array:
  assumes "memories < length h"
  shows "\<exists>h' r. sortChronologically_st engine dateMs h memories = Some (h', r)
           \<and> r \<noteq> memories \<and> length h \<le> r \<and> r < length h'
           \<and> take (length h) h' = h
           \<and> h' ! memories = h ! memories
           \<and> h' ! r = sortChronologically engine dateMs (h ! memories)"
  using assms by (simp add: sortChronologically_st_result nth_append)

theorem sortChronologically_fresh_array_witness:
  "(0::nat) < length [scenario]
   \<and> (\<exists>h' r. sortChronologically_st asGiven calendarDateMs [scenario] 0 = Some (h', r)
           \<and> r \<noteq> 0 \<and> h' ! 0 = scenario
           \<and> map memoryDate (h' ! r) = [Some ''2023-12-25'', Some ''2024-01-01'', Some ''2024-06-15''])"
  using sortChronologically_fresh_array [of 0 "[scenario]" asGiven calendarDateMs]
    scenario_sorted [OF reads_calendar, of asGiven]
  by auto

section \<open>Navigation\<close>

lemma goNext_transitioning: "isTransitioning s \<Longrightarrow> goNext n s = s"
  by (simp add: goNext_def goNextAt_def)

lemma goNext_index: "currentIndex (goNext n s) = currentIndex s"
  by (simp add: goNext_def goNextAt_def)

lemma goNext_funpow:
  assumes "isTransitioning s"
  shows "(goNext n ^^ k) s = s"
  by (induction k) (simp_all add: goNext_transitioning assms)

lemma nav_trace_index:
  "currentIndex (foldl (nav_step n) s evs) = currentIndex s + int (count_list evs Completed)"
proof (induction evs arbitrary: s)
  case Nil
  show ?case by simp
next
  case (Cons e evs)
  show ?case
    by (cases e) (simp_all add: Cons.IH goNext_index handleTransitionComplete_def)
qed

text \<open>
  C1. In every playback state, \<open>goNext\<close> while \<open>isTransitioning\<close> holds changes
  nothing, and \<open>goNext\<close> never changes \<open>currentIndex\<close>. When \<open>goNext\<close> has begun
  a transition, any number \<open>k\<close> of further calls during it change nothing, and the
  completion callback then makes the index exactly one larger and ends the
  transition. Along any trace of \<open>goNext\<close> calls and completions the index grows by
  the number of completions.
\<close>

theorem goNext_defers_index:
  "(isTransitioning s \<longrightarrow> goNext n s = s)
   \<and> currentIndex (goNext n s) = currentIndex s
   \<and> (isTransitioning (goNext n s) \<longrightarrow>
        (goNext n ^^ k) (goNext n s) = goNext n s
        \<and> currentIndex (handleTransitionComplete ((goNext n ^^ k) (goNext n s))) = currentIndex s + 1
        \<and> \<not> isTransitioning (handleTransitionComplete ((goNext n ^^ k) (goNext n s))))
   \<and> currentIndex (foldl (nav_step n) s evs) = currentIndex s + int (count_list evs Completed)"
  by (simp add: goNext_transitioning goNext_index goNext_funpow handleTransitionComplete_def
      nav_trace_index)

theorem goNext_defers_index_witness:
  "isTransitioning (goNext 3 (arrived 0))
   \<and> currentIndex (goNext 3 (arrived 0)) = 0
   \<and> (goNext 3 ^^ 2) (goNext 3 (arrived 0)) = goNext 3 (arrived 0)
   \<and> handleTransitionComplete ((goNext 3 ^^ 2) (goNext 3 (arrived 0))) = arrived 1
   \<and> goNext 3 (goNext 3 (arrived 0)) = goNext 3 (arrived 0)"
proof -
  have t: "isTransitioning (goNext 3 (arrived 0))"
    by (simp add: goNext_def goNextAt_def arrived_def initialPlayback_def)
  have c: "handleTransitionComplete (goNext 3 (arrived 0)) = arrived 1"
    by (simp add: goNext_def goNextAt_def arrived_def initialPlayback_def handleTransitionComplete_def)
  show ?thesis
    using goNext_defers_index [of "goNext 3 (arrived 0)" 3 0 "[]"]
      goNext_defers_index [of "arrived 0" 3 2 "[]"] t c
    by (simp add: arrived_def initialPlayback_def)
qed

text \<open>
  C9, as stated, fails: before the start (\<open>currentIndex = - 1\<close>, no transition)
  \<open>goPrev\<close> changes nothing although the index is not \<open>0\<close>; and without a map
  instance it steps back without any camera call.
\<close>

theorem goPrev_at_idle_counterexample:
  "\<not> isTransitioning initialPlayback
   \<and> currentIndex initialPlayback \<noteq> 0
   \<and> goPrev True scenario initialPlayback = (initialPlayback, [])
   \<and> currentIndex (fst (goPrev True scenario initialPlayback)) \<noteq> currentIndex initialPlayback - 1
   \<and> currentIndex (fst (goPrev False scenario (arrived 1))) = 0
   \<and> snd (goPrev False scenario (arrived 1)) = []"
  by (simp add: goPrev_def initialPlayback_def arrived_def flyToMemory_def)

text \<open>
  C9, amended. \<open>goPrev\<close> changes nothing when \<open>isTransitioning\<close> holds or
  \<open>currentIndex \<le> 0\<close>. Otherwise it makes the index exactly one smaller in the same
  call, leaves the state in which no segment is drawn, and, when there is a map
  instance, issues one direct \<open>FlyTo\<close> to the record at the new index; without a
  map instance it issues no camera call.
\<close>

theorem goPrev_steps_back:
  "(isTransitioning s \<or> currentIndex s \<le> 0 \<longrightarrow> goPrev mapInstance ms s = (s, []))
   \<and> (\<not> isTransitioning s \<and> 0 < currentIndex s \<longrightarrow>
        fst (goPrev mapInstance ms s) = s\<lparr>currentIndex := currentIndex s - 1\<rparr>
        \<and> \<not> drawsSegment (length ms) (fst (goPrev mapInstance ms s))
        \<and> (mapInstance \<and> currentIndex s \<le> int (length ms) \<longrightarrow>
             snd (goPrev mapInstance ms s)
               = [FlyTo (lat (ms ! nat (currentIndex s - 1))) (lng (ms ! nat (currentIndex s - 1)))
                    TRAVEL_ZOOM 2])
        \<and> (\<not> mapInstance \<longrightarrow> snd (goPrev mapInstance ms s) = []))"
  by (auto simp: goPrev_def flyToMemory_def drawsSegment_def Let_def)

theorem goPrev_steps_back_witness:
  "goPrev True scenario (arrived 2)
     = (arrived 1, [FlyTo (lat (scenario ! 1)) (lng (scenario ! 1)) TRAVEL_ZOOM 2])
   \<and> goPrev True scenario (arrived 0) = (arrived 0, [])
   \<and> goPrev False scenario (arrived 2) = (arrived 1, [])"
proof -
  have a: "\<not> isTransitioning (arrived 2) \<and> 0 < currentIndex (arrived 2)
           \<and> currentIndex (arrived 2) \<le> int (length scenario)"
    by (simp add: arrived_def initialPlayback_def scenario_def)
  have b: "(arrived 2)\<lparr>currentIndex := currentIndex (arrived 2) - 1\<rparr> = arrived 1"
    by (simp add: arrived_def)
  have c: "currentIndex (arrived 0) \<le> 0" by (simp add: arrived_def)
  have d: "nat (currentIndex (arrived 2) - 1) = 1" by (simp add: arrived_def)
  show ?thesis
    using goPrev_steps_back [of "arrived 2" True scenario]
      goPrev_steps_back [of "arrived 0" True scenario]
      goPrev_steps_back [of "arrived 2" False scenario] a b c d
    by (simp add: prod_eq_iff)
qed

section \<open>The life cycle of the music\<close>

lemma startMusic_playing: "isPlaying a \<Longrightarrow> startMusic ctorOk now a = (None, a)"
  by (simp add: startMusic_def)

lemma stopMusic_idle: "\<not> isPlaying a \<Longrightarrow> stopMusic now a = a"
  by (simp add: stopMusic_def)

lemma audio_inv_initial: "audio_inv initialAudio"
  by (simp add: audio_inv_def initialAudio_def)

lemma audio_inv_start:
  assumes "audio_inv a"
  shows "audio_inv (snd (startMusic ctorOk now a))"
proof (cases "isPlaying a \<or> \<not> ctorOk")
  case True
  then show ?thesis using assms by (auto simp: startMusic_def)
next
  case False
  then have np: "\<not> isPlaying a" and ok: ctorOk by auto
  have r: "snd (startMusic ctorOk now a)
        = a\<lparr>audioCtx := Some (Suc (ctxCreated a)), masterGain := Some (Suc (ctxCreated a)),
             ctxCreated := Suc (ctxCreated a),
             ramps := ramps a @ [\<lparr>gainOf = Suc (ctxCreated a), target = 1, rampStart = now, rampEnd = now + 2\<rparr>],
             batches := batches a @ [\<lparr>batchCtx = Suc (ctxCreated a), batchDest = Suc (ctxCreated a), batchStart = now + 0.5\<rparr>],
             timerSeq := Suc (timerSeq a),
             intervals := intervals a @ [\<lparr>intervalId = Suc (timerSeq a), mergeNode = Suc (ctxCreated a), nextStart = now + 0.5\<rparr>],
             schedulerTimer := Some (Suc (timerSeq a)),
             isPlaying := True\<rparr>"
    using np ok by (simp add: startMusic_def scheduleChords_def Let_def)
  show ?thesis
    unfolding r using assms np
    by (fastforce simp: audio_inv_def le_Suc_eq)
qed

lemma audio_inv_stop:
  assumes "audio_inv a"
  shows "audio_inv (stopMusic now a)"
proof (cases "isPlaying a")
  case False
  then show ?thesis using assms by (simp add: stopMusic_idle)
next
  case True
  then have c: "audioCtx a = Some (ctxCreated a)" "masterGain a = Some (ctxCreated a)"
    using assms by (auto simp: audio_inv_def)
  have r: "stopMusic now a
        = a\<lparr>ramps := ramps a @ [\<lparr>gainOf = ctxCreated a, target = 0, rampStart = now, rampEnd = now + 1.5\<rparr>],
             timerSeq := Suc (timerSeq a),
             timeouts := timeouts a @ [\<lparr>timeoutId = Suc (timerSeq a), delay = 2000, ctx = ctxCreated a\<rparr>],
             audioCtx := None, masterGain := None, isPlaying := False\<rparr>"
    using True c by (simp add: stopMusic_def Let_def)
  show ?thesis
    unfolding r using assms True
    by (fastforce simp: audio_inv_def)
qed

lemma audio_inv_tick:
  assumes "audio_inv a"
  shows "audio_inv (schedulerTick i a)"
  using assms
  by (auto simp: schedulerTick_def scheduleChords_def audio_inv_def Let_def
      split: list.splits option.splits)

lemma filter_id_unique:
  assumes "distinct (map timeoutId ts)" "filter (\<lambda>v. timeoutId v = t) ts = v # vs"
  shows "set (map ctx (filter (\<lambda>u. timeoutId u \<noteq> t) ts)) \<union> {ctx v} = set (map ctx ts)"
  using assms
proof (induction ts arbitrary: v vs)
  case Nil
  then show ?case by simp
next
  case (Cons u ts)
  show ?case
  proof (cases "timeoutId u = t")
    case True
    then have "u = v" using Cons.prems by simp
    moreover have "\<forall>x\<in>set ts. timeoutId x \<noteq> t"
    proof
      fix x assume "x \<in> set ts"
      then have "timeoutId x \<in> set (map timeoutId ts)" by simp
      moreover have "timeoutId u \<notin> set (map timeoutId ts)" using Cons.prems(1) by simp
      ultimately show "timeoutId x \<noteq> t" using True by metis
    qed
    then have "filter (\<lambda>u. timeoutId u \<noteq> t) ts = ts"
      by (simp add: filter_id_conv)
    ultimately show ?thesis using True by auto
  next
    case False
    then show ?thesis using Cons by auto
  qed
qed

lemma audio_inv_cleanup:
  assumes "audio_inv a"
  shows "audio_inv (cleanupAfterFade t a)"
proof (cases "filter (\<lambda>v. timeoutId v = t) (timeouts a)")
  case Nil
  then show ?thesis using assms by (simp add: cleanupAfterFade_def)
next
  case (Cons v vs)
  have d: "distinct (map timeoutId (timeouts a))" using assms by (simp add: audio_inv_def)
  have cov: "set (map ctx (filter (\<lambda>u. timeoutId u \<noteq> t) (timeouts a))) \<union> {ctx v} = set (map ctx (timeouts a))"
    by (rule filter_id_unique [OF d Cons])
  have vin: "v \<in> set (timeouts a)"
  proof -
    have "v \<in> set (filter (\<lambda>v. timeoutId v = t) (timeouts a))" using Cons by simp
    then show ?thesis by simp
  qed
  have sub: "set (filter (\<lambda>u. timeoutId u \<noteq> t) (timeouts a)) \<subseteq> set (timeouts a)" by auto
  have dd: "distinct (map timeoutId (filter (\<lambda>u. timeoutId u \<noteq> t) (timeouts a)))"
    using d by (simp add: distinct_map_filter)
  have closed: "ctxClosed (cleanupAfterFade t a) = ctxClosed a @ [ctx v]"
    and touts: "timeouts (cleanupAfterFade t a) = filter (\<lambda>u. timeoutId u \<noteq> t) (timeouts a)"
    and same: "isPlaying (cleanupAfterFade t a) = isPlaying a"
      "audioCtx (cleanupAfterFade t a) = audioCtx a"
      "masterGain (cleanupAfterFade t a) = masterGain a"
      "ctxCreated (cleanupAfterFade t a) = ctxCreated a"
      "timerSeq (cleanupAfterFade t a) = timerSeq a"
    using Cons by (simp_all add: cleanupAfterFade_def Let_def split: option.splits)
  have pend: "set (map ctx (timeouts (cleanupAfterFade t a))) \<union> {ctx v} = set (map ctx (timeouts a))"
    using cov touts by simp
  have pend_sub: "set (map ctx (timeouts (cleanupAfterFade t a))) \<subseteq> set (map ctx (timeouts a))"
    using pend by blast
  have vctx: "ctx v \<in> set (map ctx (timeouts a))" using vin by simp
  show ?thesis
    unfolding audio_inv_def closed same
  proof (intro conjI)
    show "\<forall>c\<in>set (ctxClosed a @ [ctx v]). 1 \<le> c \<and> c \<le> ctxCreated a"
      using assms vin by (auto simp: audio_inv_def)
    show "\<forall>v\<in>set (timeouts (cleanupAfterFade t a)). 1 \<le> ctx v \<and> ctx v \<le> ctxCreated a \<and> timeoutId v \<le> timerSeq a"
      using assms touts by (auto simp: audio_inv_def)
    show "distinct (map timeoutId (timeouts (cleanupAfterFade t a)))"
      using dd touts by simp
    show "isPlaying a \<longrightarrow>
            audioCtx a = Some (ctxCreated a) \<and> masterGain a = Some (ctxCreated a)
            \<and> 1 \<le> ctxCreated a
            \<and> ctxCreated a \<notin> set (ctxClosed a @ [ctx v])
            \<and> ctxCreated a \<notin> set (map ctx (timeouts (cleanupAfterFade t a)))"
      using assms vctx pend_sub unfolding audio_inv_def by auto
    show "\<not> isPlaying a \<longrightarrow> audioCtx a = None \<and> masterGain a = None"
      using assms by (simp add: audio_inv_def)
    show "\<forall>c. 1 \<le> c \<and> c \<le> ctxCreated a \<and> (isPlaying a \<longrightarrow> c \<noteq> ctxCreated a)
             \<longrightarrow> c \<in> set (ctxClosed a @ [ctx v]) \<or> c \<in> set (map ctx (timeouts (cleanupAfterFade t a)))"
    proof (intro allI impI)
      fix c assume h: "1 \<le> c \<and> c \<le> ctxCreated a \<and> (isPlaying a \<longrightarrow> c \<noteq> ctxCreated a)"
      then have "c \<in> set (ctxClosed a) \<or> c \<in> set (map ctx (timeouts a))"
        using assms unfolding audio_inv_def by blast
      then show "c \<in> set (ctxClosed a @ [ctx v]) \<or> c \<in> set (map ctx (timeouts (cleanupAfterFade t a)))"
        using pend by auto
    qed
  qed
qed

lemma audio_inv_step: "audio_inv a \<Longrightarrow> audio_inv (audio_step a e)"
  by (cases e) (simp_all add: audio_inv_start audio_inv_stop audio_inv_tick audio_inv_cleanup)

lemma audio_inv_foldl: "audio_inv a \<Longrightarrow> audio_inv (foldl audio_step a evs)"
  by (induction evs arbitrary: a) (simp_all add: audio_inv_step)

lemma audio_inv_run: "audio_inv (audio_run evs)"
  by (simp add: audio_run_def audio_inv_foldl audio_inv_initial)

lemma fading_inv_initial: "fading_inv initialAudio"
  by (simp add: fading_inv_def initialAudio_def)

lemma fading_inv_start:
  assumes "fading_inv a"
  shows "fading_inv (snd (startMusic ctorOk now a))"
  using assms by (simp add: fading_inv_def startMusic_def scheduleChords_def Let_def)

lemma fading_inv_stop:
  assumes "fading_inv a" "audio_inv a"
  shows "fading_inv (stopMusic now a)"
proof (cases "isPlaying a")
  case False
  then show ?thesis using assms by (simp add: stopMusic_idle)
next
  case True
  then have c: "audioCtx a = Some (ctxCreated a)" "masterGain a = Some (ctxCreated a)"
    and n: "ctxCreated a \<notin> set (ctxClosed a)" "ctxCreated a \<notin> set (map ctx (timeouts a))"
    using assms(2) by (auto simp: audio_inv_def)
  have t: "timeouts (stopMusic now a)
             = timeouts a @ [\<lparr>timeoutId = Suc (timerSeq a), delay = 2000, ctx = ctxCreated a\<rparr>]"
    and k: "ctxClosed (stopMusic now a) = ctxClosed a"
    using True c by (simp_all add: stopMusic_def Let_def)
  show ?thesis
    unfolding fading_inv_def t k using assms(1) n by (auto simp: fading_inv_def)
qed

lemma fading_inv_tick:
  assumes "fading_inv a"
  shows "fading_inv (schedulerTick i a)"
  using assms
  by (auto simp: schedulerTick_def scheduleChords_def fading_inv_def Let_def
      split: list.splits option.splits)

lemma fading_inv_cleanup:
  assumes "fading_inv a"
  shows "fading_inv (cleanupAfterFade t a)"
proof (cases "filter (\<lambda>v. timeoutId v = t) (timeouts a)")
  case Nil
  then show ?thesis using assms by (simp add: cleanupAfterFade_def)
next
  case (Cons v vs)
  have vin: "v \<in> set (timeouts a)" and vid: "timeoutId v = t"
  proof -
    have "v \<in> set (filter (\<lambda>v. timeoutId v = t) (timeouts a))" using Cons by simp
    then show "v \<in> set (timeouts a)" and "timeoutId v = t" by simp_all
  qed
  have closed: "ctxClosed (cleanupAfterFade t a) = ctxClosed a @ [ctx v]"
    and touts: "timeouts (cleanupAfterFade t a) = filter (\<lambda>u. timeoutId u \<noteq> t) (timeouts a)"
    using Cons by (simp_all add: cleanupAfterFade_def Let_def split: option.splits)
  have inj: "inj_on ctx (set (timeouts a))" and dt: "distinct (timeouts a)"
    using assms by (simp_all add: fading_inv_def distinct_map)
  have other: "ctx u \<noteq> ctx v" if "u \<in> set (timeouts a)" "timeoutId u \<noteq> t" for u
  proof
    assume "ctx u = ctx v"
    then have "u = v" using inj that(1) vin by (auto dest: inj_onD)
    then show False using that(2) vid by simp
  qed
  show ?thesis
    unfolding fading_inv_def closed touts
    using assms other by (auto simp: fading_inv_def distinct_map_filter)
qed

lemma invs_step:
  assumes "audio_inv a \<and> fading_inv a"
  shows "audio_inv (audio_step a e) \<and> fading_inv (audio_step a e)"
  using assms
  by (cases e)
    (simp_all add: audio_inv_step [simplified] audio_inv_start audio_inv_stop audio_inv_tick
      audio_inv_cleanup fading_inv_start fading_inv_stop fading_inv_tick fading_inv_cleanup)

lemma invs_foldl:
  "audio_inv a \<and> fading_inv a \<Longrightarrow>
     audio_inv (foldl audio_step a evs) \<and> fading_inv (foldl audio_step a evs)"
proof (induction evs arbitrary: a)
  case Nil
  then show ?case by simp
next
  case (Cons e evs)
  from Cons.IH [OF invs_step [OF Cons.prems]] show ?case by simp
qed

lemma fading_inv_run: "fading_inv (audio_run evs)"
  using invs_foldl [of initialAudio evs]
  by (simp add: audio_run_def audio_inv_initial fading_inv_initial)

lemma sessions_that_exist:
  assumes "audio_inv a" "fading_inv a"
  shows "sessionExists a c \<longleftrightarrow> (isPlaying a \<and> audioCtx a = Some c) \<or> fadingOut a c"
proof (cases "isPlaying a")
  case True
  show ?thesis
    using assms True unfolding audio_inv_def fading_inv_def sessionExists_def fadingOut_def
    by auto
next
  case False
  show ?thesis
    using assms False unfolding audio_inv_def fading_inv_def sessionExists_def fadingOut_def
    by auto
qed

text \<open>
  C8, as stated, fails in its parenthesis: after start, stop and a start before
  the clean-up of the stop, two sessions exist. Both contexts are constructed,
  none is closed, and the intervals of both run.
\<close>

theorem two_sessions_counterexample:
  "isPlaying (audio_run [StartMusic True 0, StopMusic 1, StartMusic True 2])
   \<and> sessionExists (audio_run [StartMusic True 0, StopMusic 1, StartMusic True 2]) 1
   \<and> sessionExists (audio_run [StartMusic True 0, StopMusic 1, StartMusic True 2]) 2
   \<and> ctxCreated (audio_run [StartMusic True 0, StopMusic 1, StartMusic True 2]) = 2
   \<and> ctxClosed (audio_run [StartMusic True 0, StopMusic 1, StartMusic True 2]) = []
   \<and> map intervalId (intervals (audio_run [StartMusic True 0, StopMusic 1, StartMusic True 2])) = [1, 3]"
  by (simp add: audio_run_def startMusic_def stopMusic_def scheduleChords_def initialAudio_def
      sessionExists_def)

text \<open>
  C8, amended. \<open>startMusic\<close> while the module is playing returns without an
  exception and leaves the whole state of the module and of the host unchanged
  (no further context is constructed); \<open>stopMusic\<close> while it is not playing
  leaves it unchanged. Along every trace of calls and timer events, the sessions
  that exist are the one \<open>audioCtx\<close> names while the module is playing and the
  stopped ones whose clean-up is pending: at most one session that has not been
  stopped exists at a time.
\<close>

theorem music_start_stop_noops:
  "(isPlaying a \<longrightarrow> startMusic ctorOk now a = (None, a))
   \<and> (\<not> isPlaying a \<longrightarrow> stopMusic now a = a)
   \<and> (sessionExists (audio_run evs) c
        \<longleftrightarrow> (isPlaying (audio_run evs) \<and> audioCtx (audio_run evs) = Some c)
            \<or> fadingOut (audio_run evs) c)
   \<and> (sessionExists (audio_run evs) c \<and> sessionExists (audio_run evs) d
        \<and> \<not> fadingOut (audio_run evs) c \<and> \<not> fadingOut (audio_run evs) d \<longrightarrow> c = d)
   \<and> (isPlaying (audio_run evs) \<longrightarrow>
        ctxCreated (audio_step (audio_run evs) (StartMusic ctorOk now)) = ctxCreated (audio_run evs))"
  using sessions_that_exist [OF audio_inv_run fading_inv_run, of evs c]
    sessions_that_exist [OF audio_inv_run fading_inv_run, of evs d]
  by (auto simp: startMusic_playing stopMusic_idle)

theorem music_start_stop_noops_witness:
  "startMusic True 5 (audio_run [StartMusic True 0]) = (None, audio_run [StartMusic True 0])
   \<and> stopMusic 0 initialAudio = initialAudio
   \<and> sessionExists (audio_run [StartMusic True 0, StopMusic 1, StartMusic True 2]) 2
   \<and> sessionExists (audio_run [StartMusic True 0, StopMusic 1, StartMusic True 2]) 1
   \<and> fadingOut (audio_run [StartMusic True 0, StopMusic 1, StartMusic True 2]) 1
   \<and> \<not> sessionExists (audio_run [StartMusic True 0, StopMusic 1, StartMusic True 2, TimeoutFires 2]) 1
   \<and> ctxCreated (audio_run [StartMusic True 0, StartMusic True 5]) = 1"
proof -
  let ?r = "audio_run [StartMusic True 0, StopMusic 1, StartMusic True 2]"
  let ?s = "audio_run [StartMusic True 0, StopMusic 1, StartMusic True 2, TimeoutFires 2]"
  have p: "isPlaying (audio_run [StartMusic True 0])"
    by (simp add: audio_run_def startMusic_def scheduleChords_def initialAudio_def)
  have q: "\<not> isPlaying initialAudio" by (simp add: initialAudio_def)
  have r: "isPlaying ?r \<and> audioCtx ?r = Some 2 \<and> fadingOut ?r 1"
    by (simp add: audio_run_def startMusic_def stopMusic_def scheduleChords_def initialAudio_def
        fadingOut_def)
  have s: "audioCtx ?s = Some 2 \<and> \<not> fadingOut ?s 1"
    by (simp add: audio_run_def startMusic_def stopMusic_def cleanupAfterFade_def
        scheduleChords_def initialAudio_def fadingOut_def)
  have c: "ctxCreated (audio_run [StartMusic True 0]) = 1"
    by (simp add: audio_run_def startMusic_def scheduleChords_def initialAudio_def)
  have e: "audio_run [StartMusic True 0, StartMusic True 5]
             = audio_step (audio_run [StartMusic True 0]) (StartMusic True 5)"
    by (simp add: audio_run_def)
  show ?thesis
    using music_start_stop_noops [where a = "audio_run [StartMusic True 0]" and ctorOk = True
        and now = 5 and evs = "[StartMusic True 0]" and c = 1 and d = 1]
      music_start_stop_noops [where a = initialAudio and now = 0
        and evs = "[StartMusic True 0, StopMusic 1, StartMusic True 2]" and c = 2 and d = 2]
      music_start_stop_noops [where a = initialAudio and now = 0
        and evs = "[StartMusic True 0, StopMusic 1, StartMusic True 2]" and c = 1 and d = 1]
      music_start_stop_noops [where a = initialAudio and now = 0
        and evs = "[StartMusic True 0, StopMusic 1, StartMusic True 2, TimeoutFires 2]"
        and c = 1 and d = 1]
      p q r s c e
    by simp
qed

section \<open>A host that refuses audio\<close>

text \<open>
  C6, as stated, fails: when the constructor of the audio context throws,
  \<open>startMusic\<close> has no handler and the exception reaches its caller; and
  \<open>toggleMusic\<close>, asked to switch the music on, is left by the same exception
  before it sets \<open>musicEnabled\<close>.
\<close>

theorem startMusic_refused_counterexample:
  "fst (startMusic False 0 initialAudio) = Some AudioRefused
   \<and> fst (toggleMusic False 0 (initialPlayback\<lparr>musicEnabled := False\<rparr>, initialAudio)) = Some AudioRefused
   \<and> \<not> musicEnabled (fst (snd (toggleMusic False 0 (initialPlayback\<lparr>musicEnabled := False\<rparr>, initialAudio))))"
  by (simp add: startMusic_def toggleMusic_def isMusicPlaying_def initialAudio_def initialPlayback_def)

text \<open>
  C6, amended. When the host refuses the construction, \<open>startMusic\<close> leaves the
  state of the module unchanged, so \<open>isMusicPlaying\<close> is what it was (false when
  no session was active), and, unless a session was active, the exception
  propagates to the caller. \<open>toggleMusic\<close> then propagates it with the playback
  state unchanged (\<open>musicEnabled\<close> keeps its previous value); \<open>startJourney\<close>
  propagates it after its state updates, so playback starts without sound.
\<close>

theorem startMusic_refused:
  "startMusic False now a = (if isPlaying a then None else Some AudioRefused, a)
   \<and> isMusicPlaying (snd (startMusic False now a)) = isMusicPlaying a
   \<and> (\<not> isPlaying a \<longrightarrow>
        toggleMusic False now (p, a) = (Some AudioRefused, p, a)
        \<and> startJourney False now (p, a)
            = (if musicEnabled p then Some AudioRefused else None,
               p\<lparr>isStarted := True, currentIndex := 0\<rparr>, a))"
  by (simp add: startMusic_def toggleMusic_def startJourney_def isMusicPlaying_def)

theorem startMusic_refused_witness:
  "startMusic False 0 initialAudio = (Some AudioRefused, initialAudio)
   \<and> \<not> isMusicPlaying (snd (startMusic False 0 initialAudio))
   \<and> toggleMusic False 0 (initialPlayback, initialAudio) = (Some AudioRefused, initialPlayback, initialAudio)
   \<and> startJourney False 0 (initialPlayback, initialAudio) = (Some AudioRefused, arrived 0, initialAudio)"
proof -
  have q: "\<not> isPlaying initialAudio" by (simp add: initialAudio_def)
  have m: "musicEnabled initialPlayback" by (simp add: initialPlayback_def)
  show ?thesis
    using startMusic_refused [of 0 initialAudio initialPlayback] q m
    by (simp add: arrived_def isMusicPlaying_def)
qed

section \<open>The empty timeline\<close>

text \<open>
  C7, as stated, fails: \<open>startJourney\<close> does not look at the timeline. Called
  with no records it sets \<open>isStarted\<close> and \<open>currentIndex = 0\<close> and starts the
  music. (The start button that calls it is not rendered then.)
\<close>

theorem startJourney_empty_counterexample:
  "length ([] :: memory list) = 0
   \<and> offered (length ([] :: memory list)) initialPlayback ClickStart = False
   \<and> isStarted (fst (snd (startJourney True 0 (initialPlayback, initialAudio))))
   \<and> currentIndex (fst (snd (startJourney True 0 (initialPlayback, initialAudio)))) = 0
   \<and> isMusicPlaying (snd (snd (startJourney True 0 (initialPlayback, initialAudio))))"
  by (simp add: startJourney_def startMusic_def scheduleChords_def isMusicPlaying_def
      initialAudio_def initialPlayback_def offered_def)

lemma ui_step_empty:
  assumes "pb w = initialPlayback" "\<not> isPlaying (au w)"
  shows "pb (ui_step ctorOk now mapInstance [] w e) = initialPlayback
         \<and> au (ui_step ctorOk now mapInstance [] w e) = au w"
proof (cases "offered 0 (pb w) e")
  case False
  then show ?thesis using assms by (simp add: ui_step_def)
next
  case True
  then have k: "isKey e" by (simp add: offered_def)
  show ?thesis
    using k assms True
    by (cases e)
      (simp_all add: ui_step_def exitUi_def handleExit_def stopMusic_def goNext_def goNextAt_def
        goPrev_def initialPlayback_def)
qed

lemma ui_run_empty:
  assumes "pb w = initialPlayback" "\<not> isPlaying (au w)"
  shows "pb (foldl (ui_step ctorOk now mapInstance []) w evs) = initialPlayback
         \<and> au (foldl (ui_step ctorOk now mapInstance []) w evs) = au w"
  using assms
proof (induction evs arbitrary: w)
  case Nil
  then show ?case by simp
next
  case (Cons e evs)
  have s: "pb (ui_step ctorOk now mapInstance [] w e) = initialPlayback"
    "au (ui_step ctorOk now mapInstance [] w e) = au w"
    using ui_step_empty [OF Cons.prems] by simp_all
  have "\<not> isPlaying (au (ui_step ctorOk now mapInstance [] w e))"
    using s Cons.prems by simp
  from Cons.IH [OF s(1) this] s show ?case by simp
qed

text \<open>
  C7, amended. With an empty timeline the component renders nothing, so the start
  control is not offered; whatever events the user produces (only the key handler
  reacts), the playback state stays the initial one (\<open>isStarted\<close> false,
  \<open>currentIndex = - 1\<close>) and the music module stays as it was, not playing.
\<close>

theorem empty_timeline_stays_idle:
  assumes "pb w = initialPlayback" "\<not> isPlaying (au w)"
  shows "\<not> offered 0 (pb w) ClickStart
       \<and> pb (foldl (ui_step ctorOk now mapInstance []) w evs) = initialPlayback
       \<and> \<not> isStarted (pb (foldl (ui_step ctorOk now mapInstance []) w evs))
       \<and> currentIndex (pb (foldl (ui_step ctorOk now mapInstance []) w evs)) = - 1
       \<and> au (foldl (ui_step ctorOk now mapInstance []) w evs) = au w
       \<and> \<not> isMusicPlaying (au (foldl (ui_step ctorOk now mapInstance []) w evs))"
  using ui_run_empty [OF assms] assms
  by (simp add: offered_def isMusicPlaying_def initialPlayback_def)

theorem empty_timeline_stays_idle_witness:
  "pb (foldl (ui_step True 0 True []) initialUi [ClickStart, KeySpace, KeyArrowLeft, ClickStart, KeyEscape])
     = initialPlayback
   \<and> au (foldl (ui_step True 0 True []) initialUi [ClickStart, KeySpace, KeyArrowLeft, ClickStart, KeyEscape])
     = initialAudio
   \<and> pb initialUi = initialPlayback
   \<and> \<not> isPlaying (au initialUi)"
proof -
  have a: "pb initialUi = initialPlayback" by (simp add: initialUi_def)
  have b: "\<not> isPlaying (au initialUi)" by (simp add: initialUi_def initialAudio_def)
  show ?thesis
    using empty_timeline_stays_idle [OF a b, of True 0 True
        "[ClickStart, KeySpace, KeyArrowLeft, ClickStart, KeyEscape]"] a b
    by (simp add: initialUi_def)
qed

section \<open>Toggling the music\<close>

text \<open>
  C5, as stated, fails twice. After a start that the host refused, the controls
  are shown with \<open>musicEnabled\<close> true and no music playing; two toggles from
  there (the host now allowing audio) end with \<open>musicEnabled\<close> false. And when
  \<open>startMusic\<close> follows \<open>stopMusic\<close> before the clean-up timeout of the stop has
  fired, that clean-up clears the interval of the new session (id 3, the one
  \<open>schedulerTimer\<close> names by then) and leaves the old interval (id 1) running.
\<close>

theorem toggleMusic_twice_counterexample:
  "offered 3 (fst afterRefusedStart) ClickMusic
   \<and> musicEnabled (fst afterRefusedStart)
   \<and> \<not> isMusicPlaying (snd afterRefusedStart)
   \<and> \<not> musicEnabled (fst (snd (toggleMusic True 2 (snd (toggleMusic True 1 afterRefusedStart)))))
   \<and> isPlaying (audio_run [StartMusic True 0, StopMusic 10, StartMusic True 10.5, TimeoutFires 2])
   \<and> map intervalId (intervals (audio_run [StartMusic True 0, StopMusic 10, StartMusic True 10.5])) = [1, 3]
   \<and> schedulerTimer (audio_run [StartMusic True 0, StopMusic 10, StartMusic True 10.5]) = Some 3
   \<and> map intervalId (intervals (audio_run [StartMusic True 0, StopMusic 10, StartMusic True 10.5, TimeoutFires 2])) = [1]
   \<and> schedulerTimer (audio_run [StartMusic True 0, StopMusic 10, StartMusic True 10.5, TimeoutFires 2]) = None"
  by (simp add: afterRefusedStart_def startJourney_def offered_def controlsShown_def
      toggleMusic_def startMusic_def stopMusic_def cleanupAfterFade_def scheduleChords_def
      isMusicPlaying_def initialAudio_def initialPlayback_def audio_run_def)

lemma toggle_from_playing:
  assumes "isPlaying a" "audioCtx a = Some c" "masterGain a = Some g"
  shows "toggleMusic ctorOk now (p, a) = (None, p\<lparr>musicEnabled := False\<rparr>, stopMusic now a)"
    and "\<not> isPlaying (stopMusic now a)"
    and "ramps (stopMusic now a) = ramps a @ [\<lparr>gainOf = g, target = 0, rampStart = now, rampEnd = now + 1.5\<rparr>]"
    and "timeouts (stopMusic now a) = timeouts a @ [\<lparr>timeoutId = Suc (timerSeq a), delay = 2000, ctx = c\<rparr>]"
  using assms by (simp_all add: toggleMusic_def isMusicPlaying_def stopMusic_def Let_def)

lemma toggle_from_idle:
  assumes "\<not> isPlaying a"
  shows "toggleMusic True now (p, a) = (None, p\<lparr>musicEnabled := True\<rparr>, snd (startMusic True now a))"
    and "isPlaying (snd (startMusic True now a))"
    and "audioCtx (snd (startMusic True now a)) = Some (Suc (ctxCreated a))"
    and "masterGain (snd (startMusic True now a)) = Some (Suc (ctxCreated a))"
  using assms
  by (simp_all add: toggleMusic_def isMusicPlaying_def startMusic_def scheduleChords_def Let_def)

lemma cleanup_closes_captured:
  assumes "\<forall>v\<in>set (timeouts a). timeoutId v \<noteq> t"
  shows "ctxClosed (cleanupAfterFade t (a\<lparr>timeouts := timeouts a @ [\<lparr>timeoutId = t, delay = d, ctx = c\<rparr>]\<rparr>))
           = ctxClosed a @ [c]"
proof -
  have "filter (\<lambda>v. timeoutId v = t) (timeouts a) = []"
    using assms by (simp add: filter_empty_conv)
  then show ?thesis
    by (simp add: cleanupAfterFade_def Let_def split: option.splits)
qed

lemma toggleMusic_twice_inv:
  assumes "musicEnabled p = isPlaying a" "audio_inv a"
  shows "musicEnabled (fst (snd (toggleMusic True t2 (snd (toggleMusic True t1 (p, a)))))) = musicEnabled p
       \<and> isMusicPlaying (snd (snd (toggleMusic True t2 (snd (toggleMusic True t1 (p, a)))))) = isMusicPlaying a
       \<and> (isPlaying a \<longrightarrow>
            (\<exists>r v. ramps (stopMusic t1 a) = ramps a @ [r]
                 \<and> timeouts (stopMusic t1 a) = timeouts a @ [v]
                 \<and> target r = 0 \<and> masterGain a = Some (gainOf r) \<and> audioCtx a = Some (ctx v)
                 \<and> (rampEnd r - rampStart r) * 1000 < real (delay v)
                 \<and> ctxClosed (cleanupAfterFade (timeoutId v) (stopMusic t1 a)) = ctxClosed a @ [ctx v]))"
proof (cases "isPlaying a")
  case True
  then have c: "audioCtx a = Some (ctxCreated a)" "masterGain a = Some (ctxCreated a)"
    using assms(2) by (auto simp: audio_inv_def)
  note f = toggle_from_playing [OF True c]
  have fresh: "\<forall>v\<in>set (timeouts a). timeoutId v \<noteq> Suc (timerSeq a)"
    using assms(2) by (fastforce simp: audio_inv_def)
  have st: "stopMusic t1 a
        = (a\<lparr>ramps := ramps a @ [\<lparr>gainOf = ctxCreated a, target = 0, rampStart = t1, rampEnd = t1 + 1.5\<rparr>],
             timerSeq := Suc (timerSeq a),
             audioCtx := None, masterGain := None, isPlaying := False\<rparr>)
            \<lparr>timeouts := timeouts a @ [\<lparr>timeoutId = Suc (timerSeq a), delay = 2000, ctx = ctxCreated a\<rparr>]\<rparr>"
    using True c by (simp add: stopMusic_def Let_def)
  have cl: "ctxClosed (cleanupAfterFade (Suc (timerSeq a)) (stopMusic t1 a)) = ctxClosed a @ [ctxCreated a]"
    unfolding st
    using cleanup_closes_captured [of "a\<lparr>ramps := ramps a @ [\<lparr>gainOf = ctxCreated a, target = 0, rampStart = t1, rampEnd = t1 + 1.5\<rparr>],
             timerSeq := Suc (timerSeq a),
             audioCtx := None, masterGain := None, isPlaying := False\<rparr>" "Suc (timerSeq a)" 2000 "ctxCreated a"] fresh
    by simp
  have again: "toggleMusic True t2 (p\<lparr>musicEnabled := False\<rparr>, stopMusic t1 a)
      = (None, p\<lparr>musicEnabled := True\<rparr>, snd (startMusic True t2 (stopMusic t1 a)))"
    using toggle_from_idle(1) [OF f(2), of t2 "p\<lparr>musicEnabled := False\<rparr>"] by simp
  have pl: "isPlaying (snd (startMusic True t2 (stopMusic t1 a)))"
    by (rule toggle_from_idle(2) [OF f(2)])
  show ?thesis
    using True assms(1) f again pl cl c
    by (simp add: isMusicPlaying_def)
next
  case False
  note f = toggle_from_idle [OF False]
  have "toggleMusic True t2 (p\<lparr>musicEnabled := True\<rparr>, snd (startMusic True t1 a))
      = (None, p\<lparr>musicEnabled := False\<rparr>, stopMusic t2 (snd (startMusic True t1 a)))"
    using toggle_from_playing(1) [OF f(2) f(3) f(4)] by simp
  moreover have "\<not> isPlaying (stopMusic t2 (snd (startMusic True t1 a)))"
    by (rule toggle_from_playing(2) [OF f(2) f(3) f(4)])
  ultimately show ?thesis
    using False assms(1) f(1) by (simp add: isMusicPlaying_def)
qed

text \<open>
  C5, amended. In every state \<open>a\<close> the module reaches, when \<open>musicEnabled\<close> agrees
  with \<open>isMusicPlaying\<close> and the host allows the construction, two toggles return
  both to their values. When the music is playing, \<open>stopMusic\<close> starts a ramp of
  the master gain to \<open>0\<close> that ends before the delay of the clean-up timeout it
  sets, and that clean-up closes the context of the stopped session.
\<close>

theorem toggleMusic_twice_in_step:
  assumes "a = audio_run evs" "musicEnabled p = isPlaying a"
  shows "musicEnabled (fst (snd (toggleMusic True t2 (snd (toggleMusic True t1 (p, a)))))) = musicEnabled p
       \<and> isMusicPlaying (snd (snd (toggleMusic True t2 (snd (toggleMusic True t1 (p, a)))))) = isMusicPlaying a
       \<and> (isPlaying a \<longrightarrow>
            (\<exists>r v. ramps (stopMusic t1 a) = ramps a @ [r]
                 \<and> timeouts (stopMusic t1 a) = timeouts a @ [v]
                 \<and> target r = 0 \<and> masterGain a = Some (gainOf r) \<and> audioCtx a = Some (ctx v)
                 \<and> (rampEnd r - rampStart r) * 1000 < real (delay v)
                 \<and> ctxClosed (cleanupAfterFade (timeoutId v) (stopMusic t1 a)) = ctxClosed a @ [ctx v]))"
  using toggleMusic_twice_inv [OF assms(2), of t2 t1] audio_inv_run [of evs] assms(1)
  by blast

theorem toggleMusic_twice_in_step_witness:
  "musicEnabled (fst (snd (toggleMusic True 2 (snd (toggleMusic True 1 (initialPlayback, audio_run [StartMusic True 0]))))))
   \<and> isMusicPlaying (snd (snd (toggleMusic True 2 (snd (toggleMusic True 1 (initialPlayback, audio_run [StartMusic True 0]))))))
   \<and> isPlaying (audio_run [StartMusic True 0])
   \<and> ctxClosed (cleanupAfterFade 2 (stopMusic 1 (audio_run [StartMusic True 0]))) = [1]
   \<and> \<not> musicEnabled (fst (snd (toggleMusic True 2 (snd (toggleMusic True 1 (initialPlayback\<lparr>musicEnabled := False\<rparr>, audio_run []))))))"
proof -
  have p: "isPlaying (audio_run [StartMusic True 0])"
    by (simp add: audio_run_def startMusic_def scheduleChords_def initialAudio_def)
  have m: "musicEnabled initialPlayback" by (simp add: initialPlayback_def)
  have q: "\<not> isPlaying (audio_run [])" by (simp add: audio_run_def initialAudio_def)
  have c: "ctxClosed (cleanupAfterFade 2 (stopMusic 1 (audio_run [StartMusic True 0]))) = [1]"
    by (simp add: audio_run_def startMusic_def stopMusic_def cleanupAfterFade_def scheduleChords_def
        initialAudio_def)
  show ?thesis
    using toggleMusic_twice_in_step [where a = "audio_run [StartMusic True 0]"
        and evs = "[StartMusic True 0]" and p = initialPlayback and ?t1.0 = 1 and ?t2.0 = 2]
      toggleMusic_twice_in_step [where a = "audio_run []" and evs = "[]"
        and p = "initialPlayback\<lparr>musicEnabled := False\<rparr>" and ?t1.0 = 1 and ?t2.0 = 2]
      p m q c
    by (simp add: isMusicPlaying_def)
qed

section \<open>The autoplay timer is never stale\<close>

lemma ap_inv_initial: "ap_inv (initialAutoplay ms)"
  by (simp add: ap_inv_def ap_weak_def initialAutoplay_def)

lemma cleanup_pending_empty:
  assumes "ap_weak w"
  shows "pending (autoplayCleanup w) = []"
  using assms
  by (auto simp: ap_weak_def autoplayCleanup_def clearAutoplayTimer_def split: option.splits)

lemma ap_weak_rerun:
  assumes "ap_weak w"
  shows "ap_inv (autoplayEffect (autoplayCleanup w))"
proof -
  have p: "pending (autoplayCleanup w) = []"
    by (rule cleanup_pending_empty [OF assms])
  have l: "lastTimer (autoplayCleanup w) = lastTimer w" "st (autoplayCleanup w) = st w"
    "mems (autoplayCleanup w) = mems w"
    by (simp_all add: autoplayCleanup_def clearAutoplayTimer_def split: option.splits)
  show ?thesis
    using p l
    by (simp add: ap_inv_def ap_weak_def autoplayEffect_def Let_def current_def schedulable_def)
qed

lemma filter_pending_weak:
  assumes "ap_weak w"
  shows "filter P (pending w) = [] \<or> filter P (pending w) = pending w"
  using assms by (auto simp: ap_weak_def)

lemma ap_apply_weak:
  assumes "ap_weak w"
  shows "ap_weak (ap_apply mapInstance w e)"
    and "pending (ap_apply mapInstance w e) = [] \<or> pending (ap_apply mapInstance w e) = pending w"
    and "lastTimer (ap_apply mapInstance w e) = lastTimer w"
proof -
  have props: "ap_weak (ap_apply mapInstance w e)
      \<and> (pending (ap_apply mapInstance w e) = [] \<or> pending (ap_apply mapInstance w e) = pending w)
      \<and> lastTimer (ap_apply mapInstance w e) = lastTimer w"
  proof (cases e)
    case (ApFires t)
    have f: "filter (\<lambda>x. fst x \<noteq> t) (pending w) = [] \<or> filter (\<lambda>x. fst x \<noteq> t) (pending w) = pending w"
      by (rule filter_pending_weak [OF assms])
    show ?thesis
      using assms f unfolding ApFires
      by (auto simp: ap_weak_def split: list.splits)
  next
    case (ApExit now)
    have f: "\<And>t. filter (\<lambda>x. fst x \<noteq> t) (pending w) = [] \<or> filter (\<lambda>x. fst x \<noteq> t) (pending w) = pending w"
      by (rule filter_pending_weak [OF assms])
    show ?thesis
      using assms f unfolding ApExit
      by (cases "autoPlayTimerRef w") (auto simp: ap_weak_def clearAutoplayTimer_def)
  qed (use assms in \<open>auto simp: ap_weak_def split: prod.splits\<close>)
  show "ap_weak (ap_apply mapInstance w e)"
    and "pending (ap_apply mapInstance w e) = [] \<or> pending (ap_apply mapInstance w e) = pending w"
    and "lastTimer (ap_apply mapInstance w e) = lastTimer w"
    using props by simp_all
qed

lemma ap_inv_same_deps:
  assumes "ap_inv w" "ap_weak w'" "deps w' = deps w" "pending w' = [] \<or> pending w' = pending w"
  shows "ap_inv w'"
  using assms
  by (auto simp: ap_inv_def deps_def current_def schedulable_def)

lemma ap_inv_step:
  assumes "ap_inv w"
  shows "ap_inv (ap_step mapInstance w e)"
proof -
  have wk: "ap_weak w" using assms by (simp add: ap_inv_def)
  note a = ap_apply_weak [OF wk, of mapInstance e]
  show ?thesis
  proof (cases "deps (ap_apply mapInstance w e) = deps w")
    case True
    then show ?thesis
      using ap_inv_same_deps [OF assms a(1) True a(2)] by (simp add: ap_step_def)
  next
    case False
    then show ?thesis
      using ap_weak_rerun [OF a(1)] by (simp add: ap_step_def)
  qed
qed

lemma ap_inv_foldl: "ap_inv w \<Longrightarrow> ap_inv (foldl (ap_step mapInstance) w evs)"
  by (induction evs arbitrary: w) (simp_all add: ap_inv_step)

lemma ap_inv_run: "ap_inv (ap_run mapInstance ms evs)"
  by (simp add: ap_run_def ap_inv_foldl ap_inv_initial)

text \<open>What firing a current timer does.\<close>

lemma fire_current:
  assumes "ap_inv w" "x \<in> set (pending w)"
  shows "pending (ap_apply mapInstance w (ApFires (fst x))) = []"
    and "st (ap_apply mapInstance w (ApFires (fst x)))
           = (if currentIndex (st w) < int (length (mems w)) - 1
              then goNext (length (mems w)) (st w)
              else (st w)\<lparr>isAutoPlaying := False\<rparr>)"
proof -
  have one: "pending w = [x]"
    using assms by (auto simp: ap_inv_def ap_weak_def)
  have cur: "current w x" and sch: "schedulable (st w)"
    using assms by (auto simp: ap_inv_def)
  show "pending (ap_apply mapInstance w (ApFires (fst x))) = []"
    using one by simp
  show "st (ap_apply mapInstance w (ApFires (fst x)))
           = (if currentIndex (st w) < int (length (mems w)) - 1
              then goNext (length (mems w)) (st w)
              else (st w)\<lparr>isAutoPlaying := False\<rparr>)"
    using one cur sch
    by (simp add: autoplayCallback_def goNext_def goNextAt_def current_def schedulable_def)
qed

lemma invalidated_timer_gone:
  assumes "ap_inv w" "deps (ap_step mapInstance w e) \<noteq> deps w" "x \<in> set (pending w)"
  shows "fst x \<notin> fst ` set (pending (ap_step mapInstance w e))"
proof -
  have wk: "ap_weak w" using assms by (simp add: ap_inv_def)
  note a = ap_apply_weak [OF wk, of mapInstance e]
  have d: "deps (autoplayEffect v) = deps v" "deps (autoplayCleanup v) = deps v" for v
    by (simp_all add: deps_def autoplayEffect_def autoplayCleanup_def clearAutoplayTimer_def Let_def
        split: option.splits)
  have ch: "deps (ap_apply mapInstance w e) \<noteq> deps w"
    using assms(2) by (auto simp: ap_step_def Let_def d split: if_splits)
  have p: "pending (autoplayCleanup (ap_apply mapInstance w e)) = []"
    by (rule cleanup_pending_empty [OF a(1)])
  have l: "lastTimer (autoplayCleanup (ap_apply mapInstance w e)) = lastTimer w"
    using a(3) by (simp add: autoplayCleanup_def clearAutoplayTimer_def split: option.splits)
  have old: "fst x \<le> lastTimer w" using wk assms(3) by (auto simp: ap_weak_def)
  have "\<forall>y\<in>set (pending (ap_step mapInstance w e)). fst y = Suc (lastTimer w)"
    using ch p l by (simp add: ap_step_def autoplayEffect_def Let_def)
  then show ?thesis using old by force
qed


lemma st_ap_step: "st (ap_step mapInstance w e) = st (ap_apply mapInstance w e)"
  by (simp add: ap_step_def autoplayEffect_def autoplayCleanup_def clearAutoplayTimer_def Let_def
      split: option.splits)

lemma fire_at_end:
  assumes "ap_inv w" "x \<in> set (pending w)" "currentIndex (st w) \<ge> int (length (mems w)) - 1"
  shows "st (ap_step mapInstance w (ApFires (fst x))) = (st w)\<lparr>isAutoPlaying := False\<rparr>"
    and "pending (ap_step mapInstance w (ApFires (fst x))) = []"
proof -
  note f = fire_current [OF assms(1,2), of mapInstance]
  have s: "st (ap_apply mapInstance w (ApFires (fst x))) = (st w)\<lparr>isAutoPlaying := False\<rparr>"
    using f(2) assms(3) by simp
  show "st (ap_step mapInstance w (ApFires (fst x))) = (st w)\<lparr>isAutoPlaying := False\<rparr>"
    using s by (simp add: st_ap_step)
  have "\<not> schedulable (st (ap_step mapInstance w (ApFires (fst x))))"
    using s by (simp add: st_ap_step schedulable_def)
  moreover have "ap_inv (ap_step mapInstance w (ApFires (fst x)))"
    by (rule ap_inv_step [OF assms(1)])
  ultimately show "pending (ap_step mapInstance w (ApFires (fst x))) = []"
    by (cases "pending (ap_step mapInstance w (ApFires (fst x)))") (auto simp: ap_inv_def)
qed

text \<open>
  C4. Along every trace of events from the mount, a timeout \<open>x\<close> that is pending
  is the only one, and what its callback closed over is what the state holds; the
  state is started, autoplaying, at an index \<open>\<ge> 0\<close> and not transitioning. When
  it fires and a next record exists, the state becomes what a manual \<open>goNext\<close>
  makes of it; when it fires at the last position, \<open>isAutoPlaying\<close> becomes false,
  no transition starts, the index stays and no new timeout is set. Every event \<open>e\<close>
  that changes a dependency of the effect (navigation, toggling autoplay, a
  transition starting or ending, the start, a new list of memories) removes the
  pending timeout before it can fire.
\<close>

theorem autoplay_timer_current:
  assumes "w = ap_run mapInstance ms evs" "x \<in> set (pending w)"
  shows "pending w = [x] \<and> current w x \<and> schedulable (st w)
       \<and> st (ap_step mapInstance w (ApFires (fst x)))
           = (if currentIndex (st w) < int (length (mems w)) - 1
              then goNext (length (mems w)) (st w)
              else (st w)\<lparr>isAutoPlaying := False\<rparr>)
       \<and> (currentIndex (st w) \<ge> int (length (mems w)) - 1 \<longrightarrow>
            \<not> isAutoPlaying (st (ap_step mapInstance w (ApFires (fst x))))
            \<and> \<not> isTransitioning (st (ap_step mapInstance w (ApFires (fst x))))
            \<and> currentIndex (st (ap_step mapInstance w (ApFires (fst x)))) = currentIndex (st w)
            \<and> pending (ap_step mapInstance w (ApFires (fst x))) = [])
       \<and> (deps (ap_step mapInstance w e) \<noteq> deps w \<longrightarrow>
            fst x \<notin> fst ` set (pending (ap_step mapInstance w e)))"
proof -
  have inv: "ap_inv w" using assms(1) by (simp add: ap_inv_run)
  have one: "pending w = [x]" and cur: "current w x" and sch: "schedulable (st w)"
    using inv assms(2) by (auto simp: ap_inv_def ap_weak_def)
  note f = fire_current [OF inv assms(2), of mapInstance]
  note g = fire_at_end [OF inv assms(2), of mapInstance]
  note h = invalidated_timer_gone [OF inv _ assms(2), of mapInstance e]
  show ?thesis
    using one cur sch f(2) g h sch
    by (simp add: st_ap_step schedulable_def)
qed



theorem autoplay_timer_current_witness:
  "pending atFirst = [(1, arrived 0, 3)]
   \<and> st (ap_step True atFirst (ApFires 1)) = goNext 3 (arrived 0)
   \<and> isTransitioning (st (ap_step True atFirst (ApFires 1)))
   \<and> deps (ap_step True atFirst ApPlayPause) \<noteq> deps atFirst
   \<and> 1 \<notin> fst ` set (pending (ap_step True atFirst ApPlayPause))
   \<and> pending atLast = [(3, arrived 2, 3)]
   \<and> st (ap_step True atLast (ApFires 3)) = (arrived 2)\<lparr>isAutoPlaying := False\<rparr>
   \<and> pending (ap_step True atLast (ApFires 3)) = []"
proof -
  have p1: "pending atFirst = [(1, arrived 0, 3)]" by code_simp
  have p2: "pending atLast = [(3, arrived 2, 3)]" by code_simp
  have s1: "st atFirst = arrived 0" "length (mems atFirst) = 3" by code_simp+
  have s2: "st atLast = arrived 2" "length (mems atLast) = 3" by code_simp+
  have d: "deps (ap_step True atFirst ApPlayPause) \<noteq> deps atFirst" by code_simp
  have t: "isTransitioning (goNext 3 (arrived 0))" by code_simp
  have m1: "(1, arrived 0, 3) \<in> set (pending atFirst)" by (simp add: p1)
  have m2: "(3, arrived 2, 3) \<in> set (pending atLast)" by (simp add: p2)
  have i0: "currentIndex (arrived 0) = 0" "currentIndex (arrived 2) = 2" by (simp_all add: arrived_def)
  show ?thesis
    using autoplay_timer_current [OF atFirst_def m1, of ApPlayPause]
      autoplay_timer_current [OF atLast_def m2, of ApPlayPause] s1 s2 d t i0
    by (simp add: p1 p2)
qed

section \<open>Cancelling a segment in flight\<close>

lemma animate_cancelled: "cancelRef w \<Longrightarrow> animate now s t w = w"
  by (simp add: animate_def)

lemma runFrames_cancelled: "cancelRef w \<Longrightarrow> runFrames now fs w = w"
  by (induction fs) (simp_all add: runFrames_def animate_cancelled)

text \<open>
  While \<^verbatim>\<open>cancelRef\<close> is set, the callbacks of the host do nothing that can be
  observed: the check stands before every tick and before the completion signal.
\<close>

lemma host_event_cancelled:
  assumes "cancelRef w"
  shows "quiet w (onMoveEnd w)" "quiet w (onPauseOver s w)" "quiet w (onFrame now w)"
proof -
  show "quiet w (onMoveEnd w)"
    using assms by (simp add: quiet_def onMoveEnd_def)
  show "quiet w (onPauseOver s w)"
    using assms by (simp add: quiet_def onPauseOver_def Let_def)
  have "runFrames now (frames w) (w\<lparr>frames := []\<rparr>) = w\<lparr>frames := []\<rparr>"
    using assms by (simp add: runFrames_cancelled)
  then show "quiet w (onFrame now w)"
    using assms by (simp add: quiet_def onFrame_def afterUpdate_def)
qed

lemma unmounted_step:
  assumes "cancelRef w" "\<not> mounted w"
  shows "quiet w (anim_step w e)"
  using assms host_event_cancelled [OF assms(1)]
  by (cases e) (simp_all add: quiet_def)

lemma unmounted_run:
  assumes "cancelRef w" "\<not> mounted w"
  shows "quiet w (foldl anim_step w evs)"
  using assms
proof (induction evs arbitrary: w)
  case Nil
  then show ?case by (simp add: quiet_def)
next
  case (Cons e evs)
  have q: "quiet w (anim_step w e)" by (rule unmounted_step [OF Cons.prems])
  then have "cancelRef (anim_step w e)" "\<not> mounted (anim_step w e)"
    using Cons.prems by (simp_all add: quiet_def)
  from Cons.IH [OF this] q show ?case by (simp add: quiet_def)
qed

text \<open>
  After the unmount (also on exit) nothing sets \<^verbatim>\<open>cancelRef\<close> back: whatever
  the host still delivers, no tick runs, no completion is signalled and the index
  stays.
\<close>

lemma unmount_cancels:
  assumes "mounted w" "hasCleanup w"
  shows "trace (foldl anim_step (anim_step w Unmounts) evs) = trace w"
    and "view (foldl anim_step (anim_step w Unmounts) evs) = view w"
proof -
  let ?u = "anim_step w Unmounts"
  have c: "cancelRef ?u" "\<not> mounted ?u" "trace ?u = trace w" "view ?u = view w"
    using assms
    by (simp_all add: pathCleanup_def cleanupLayers_def split: option.splits)
  from unmounted_run [OF c(1,2), of evs] c(3,4)
  show "trace (foldl anim_step (anim_step w Unmounts) evs) = trace w"
    and "view (foldl anim_step (anim_step w Unmounts) evs) = view w"
    by (simp_all add: quiet_def)
qed

text \<open>
  C2 on the code. Session 1 draws the segment from index 0 and waits for
  \<^verbatim>\<open>moveend\<close>. A render with a new array of the same records tears it down (the
  clean-up sets \<^verbatim>\<open>cancelRef\<close>) and the effect runs again: it sets \<^verbatim>\<open>cancelRef\<close>
  back to false for session 2, and the listener of session 1 is still registered.
  When the host carries on, session 1 ticks and signals its completion, as
  session 2 does, and the index goes from 0 to 2.
\<close>

theorem replaced_session_still_signals:
  "listeners (anim_run 3 [Starts, Goes]) = [1]
   \<and> cancelRef (pathCleanup (anim_run 3 [Starts, Goes]))
   \<and> cancelRef (anim_run 3 replacedInFlight) = False
   \<and> listeners (anim_run 3 replacedInFlight) = [1, 2]
   \<and> currentIndex (view (anim_run 3 replacedInFlight)) = 0
   \<and> trace (anim_run 3 (replacedInFlight @ hostCarriesOn))
       = [Ticked 1, Ticked 2, Ticked 1, Signalled 1, Ticked 2, Signalled 2]
   \<and> currentIndex (view (anim_run 3 (replacedInFlight @ hostCarriesOn))) = 2"
  by code_simp

text \<open>The same segment, torn down by the unmount instead: nothing follows.\<close>

lemma exit_in_flight:
  "trace (anim_run 3 ([Starts, Goes, Unmounts] @ hostCarriesOn)) = []
   \<and> currentIndex (view (anim_run 3 ([Starts, Goes, Unmounts] @ hostCarriesOn))) = 0"
  by code_simp

end
